theory Spec2Isabelle
  imports Complex_Main
begin

section \<open>Python values shared by the streamers\<close>

text \<open>
  Python floats and numpy float arrays are modelled as reals and lists of reals: the
  arithmetic below is the exact arithmetic the floating-point code approximates.
  Exceptions are values of \<open>py_error\<close>; a function that can raise returns a sum whose
  \<open>Inl\<close> carries the exception.
\<close>

datatype py_error = ValueError | IndexError | ZeroDivisionError | OSError

datatype osc_arg = OscFloat real | OscInt int | OscStr string

text \<open>
  The UDP client (\<open>SimpleUDPClient\<close>) is an external collaborator. It is modelled by
  the predicate telling whether \<open>send_message address value\<close> returns normally
  (\<open>True\<close>) or raises (\<open>False\<close>).
\<close>

type_synonym osc_client = "string \<Rightarrow> osc_arg \<Rightarrow> bool"

text \<open>
  numpy's elementwise binary operation on two one-dimensional arrays: equal lengths
  combine pointwise, a length-one array is broadcast, any other pair of shapes raises
  \<open>ValueError\<close>.
\<close>

definition broadcast :: "(real \<Rightarrow> real \<Rightarrow> real) \<Rightarrow> real list \<Rightarrow> real list \<Rightarrow> py_error + real list" where
  "broadcast f xs ys =
     (if length xs = length ys then Inr (map2 f xs ys)
      else if length xs = 1 then Inr (map (f (hd xs)) ys)
      else if length ys = 1 then Inr (map (\<lambda>x. f x (hd ys)) xs)
      else Inl ValueError)"

section \<open>MetaHumanStreamerV3 (v3/mh_streamer_v3.py)\<close>

record transform =
  scale :: real
  offset :: real
  clamp :: "(real \<times> real) option"

record channel =
  source_column :: string
  osc_address :: string
  transform :: transform

record normalization =
  mean :: "real list"
  std :: "real list"

text \<open>
  The fields of the streamer object that the modelled methods read or write. The class
  shares attribute names with the GUI streamer modelled further down, so the shared ones
  carry the suffix \<open>_v3\<close> here. \<open>osc_calls_v3\<close> is the trace of the calls of
  \<open>osc_client.send_message\<close>, in call order, whether or not the call raised;
  \<open>log_text_v3\<close> holds the messages given to \<open>log_message\<close> (without timestamps and
  without the interpolated values). \<open>left_turn_data\<close> and \<open>right_turn_data\<close> are the
  contents of the two \<open>.npy\<close> files read by \<open>generate_turn_sequence\<close> (\<open>None\<close> when
  \<open>np.load\<close> raises); \<open>duration_var_v3\<close> is the duration text field as \<open>float()\<close>
  reads it (\<open>None\<close> when \<open>float()\<close> raises).
\<close>

record v3_state =
  osc_client_v3 :: "osc_client option"
  normalization_params :: "normalization option"
  channels_v3 :: "channel list"
  channel_mapping :: "string \<rightharpoonup> nat"
  is_streaming :: bool
  current_mode_v3 :: string
  left_turn_model :: "nat option"
  right_turn_model :: "nat option"
  left_turn_sequence :: "real list list option"
  right_turn_sequence :: "real list list option"
  left_turn_data :: "real list list list option"
  right_turn_data :: "real list list list option"
  duration_var_v3 :: "real option"
  status_label :: string
  show_data :: bool
  osc_send_count_v3 :: nat
  osc_error_count_v3 :: nat
  last_send_time_v3 :: real
  osc_calls_v3 :: "(string \<times> osc_arg) list"
  log_text_v3 :: "string list"

definition log_message_v3 :: "string \<Rightarrow> v3_state \<Rightarrow> v3_state" where
  "log_message_v3 message s = s\<lparr>log_text_v3 := log_text_v3 s @ [message]\<rparr>"

subsection \<open>denormalize_data\<close>

text \<open>
  \<open>denormalize_data\<close> of v3; the method of v2/mh_streamer_v2.py has the same body.
\<close>

definition denormalize_data :: "v3_state \<Rightarrow> real list \<Rightarrow> py_error + real list" where
  "denormalize_data s normalized_data =
     (case normalization_params s of
        None \<Rightarrow> Inr normalized_data
      | Some p \<Rightarrow>
          (case broadcast (*) normalized_data (std p) of
             Inl e \<Rightarrow> Inl e
           | Inr scaled \<Rightarrow> broadcast (+) scaled (mean p)))"

subsection \<open>stream_frame\<close>

text \<open>
  One guarded \<open>send_message\<close> of the channel loop: the call is recorded; when it returns
  the local \<open>success_count\<close> grows, when it raises \<open>osc_error_count\<close> grows and the
  error is logged.
\<close>

fun send_counted :: "osc_client \<Rightarrow> string \<Rightarrow> osc_arg \<Rightarrow> v3_state \<times> nat \<Rightarrow> v3_state \<times> nat" where
  "send_counted cl addr v (s, success_count) =
     (let s' = s\<lparr>osc_calls_v3 := osc_calls_v3 s @ [(addr, v)]\<rparr> in
      if cl addr v then (s', success_count + 1)
      else (log_message_v3 (''OSC send error for '' @ addr)
              (s'\<lparr>osc_error_count_v3 := osc_error_count_v3 s' + 1\<rparr>), success_count))"

text \<open>The body of \<open>for channel in self.channels\<close>.\<close>

fun stream_channel :: "osc_client \<Rightarrow> real list \<Rightarrow> v3_state \<times> nat \<Rightarrow> channel \<Rightarrow> v3_state \<times> nat" where
  "stream_channel cl denormalized_data (s, success_count) ch =
     (case channel_mapping s (source_column ch) of
        Some feature_idx \<Rightarrow>
          (if feature_idx < length denormalized_data then
             (let raw_value = denormalized_data ! feature_idx;
                  transformed_value = scale (transform ch) * raw_value + offset (transform ch);
                  transformed_value =
                    (case clamp (transform ch) of
                       None \<Rightarrow> transformed_value
                     | Some (clamp_min, clamp_max) \<Rightarrow> max clamp_min (min clamp_max transformed_value))
              in send_counted cl (osc_address ch) (OscFloat transformed_value) (s, success_count))
           else (s, success_count))
      | None \<Rightarrow> send_counted cl (osc_address ch) (OscFloat 0) (s, success_count))"

text \<open>
  The two control messages share one \<open>try\<close>: when the first send raises the second is
  skipped, and \<open>success_count\<close> grows by two only when both return.
\<close>

fun send_control :: "osc_client \<Rightarrow> nat \<Rightarrow> v3_state \<times> nat \<Rightarrow> v3_state \<times> nat" where
  "send_control cl frame_count (s, success_count) =
     (let m1 = (''/mh/frame'', OscInt (int frame_count));
          m2 = (''/mh/mode'', OscStr (current_mode_v3 s));
          failed = (\<lambda>t. log_message_v3 ''OSC send error for control messages''
                          (t\<lparr>osc_error_count_v3 := osc_error_count_v3 t + 1\<rparr>));
          s1 = s\<lparr>osc_calls_v3 := osc_calls_v3 s @ [m1]\<rparr>
      in if \<not> cl (fst m1) (snd m1) then (failed s1, success_count)
         else (let s2 = s1\<lparr>osc_calls_v3 := osc_calls_v3 s1 @ [m2]\<rparr>
               in if \<not> cl (fst m2) (snd m2) then (failed s2, success_count)
                  else (s2, success_count + 2)))"

text \<open>
  \<open>stream_frame\<close>; \<open>now\<close> is the reading of \<open>time.time()\<close>. An exception of
  \<open>denormalize_data\<close> reaches the outer \<open>except\<close>, which counts one error and logs.
\<close>

definition stream_frame :: "real \<Rightarrow> v3_state \<Rightarrow> real list \<Rightarrow> nat \<Rightarrow> v3_state" where
  "stream_frame now s frame_data frame_count =
     (case osc_client_v3 s of
        None \<Rightarrow> log_message_v3 ''OSC client not available'' s
      | Some cl \<Rightarrow>
          (if channels_v3 s = [] then log_message_v3 ''No channels configured'' s
           else
             (case denormalize_data s frame_data of
                Inl e \<Rightarrow>
                  log_message_v3 ''Error streaming frame''
                    (s\<lparr>osc_error_count_v3 := osc_error_count_v3 s + 1\<rparr>)
              | Inr denormalized_data \<Rightarrow>
                  (case send_control cl frame_count
                          (foldl (stream_channel cl denormalized_data) (s, 0) (channels_v3 s)) of
                     (s2, success_count) \<Rightarrow>
                       (let s3 = s2\<lparr>osc_send_count_v3 := osc_send_count_v3 s2 + success_count,
                                    last_send_time_v3 := now\<rparr>
                        in if show_data s3 \<and> frame_count mod 10 = 0
                           then log_message_v3 ''Frame'' s3 else s3)))))"

subsection \<open>Mode changes\<close>

text \<open>
  \<open>generate_turn_sequence\<close> chooses the file by comparing the model it is given with
  \<open>self.left_turn_model\<close>, loads it and returns its first sample.
\<close>

definition generate_turn_sequence :: "v3_state \<Rightarrow> nat option \<Rightarrow> py_error + real list list" where
  "generate_turn_sequence s model =
     (case (if model = left_turn_model s then left_turn_data s else right_turn_data s) of
        None \<Rightarrow> Inl OSError
      | Some turn_data \<Rightarrow> (case turn_data of [] \<Rightarrow> Inl IndexError | sequence # _ \<Rightarrow> Inr sequence))"

text \<open>
  The three mode-changing methods return the exception that leaves the method, if any,
  together with the object as the method left it: \<open>current_mode\<close> is assigned before
  the statements that can raise.
\<close>

definition start_left_turn :: "v3_state \<Rightarrow> py_error option \<times> v3_state" where
  "start_left_turn s =
     (if \<not> is_streaming s then (None, log_message_v3 ''Please start streaming first'' s)
      else
        (let s1 = s\<lparr>current_mode_v3 := ''TURNING_LEFT''\<rparr> in
         case duration_var_v3 s1 of
           None \<Rightarrow> (Some ValueError, s1)
         | Some duration \<Rightarrow>
             (case generate_turn_sequence s1 (left_turn_model s1) of
                Inl e \<Rightarrow> (Some e, s1)
              | Inr sequence \<Rightarrow>
                  (None, log_message_v3 ''Started left turn movement''
                     (s1\<lparr>left_turn_sequence := Some sequence,
                         status_label := ''Turning Left...''\<rparr>)))))"

definition start_right_turn :: "v3_state \<Rightarrow> py_error option \<times> v3_state" where
  "start_right_turn s =
     (if \<not> is_streaming s then (None, log_message_v3 ''Please start streaming first'' s)
      else
        (let s1 = s\<lparr>current_mode_v3 := ''TURNING_RIGHT''\<rparr> in
         case duration_var_v3 s1 of
           None \<Rightarrow> (Some ValueError, s1)
         | Some duration \<Rightarrow>
             (case generate_turn_sequence s1 (right_turn_model s1) of
                Inl e \<Rightarrow> (Some e, s1)
              | Inr sequence \<Rightarrow>
                  (None, log_message_v3 ''Started right turn movement''
                     (s1\<lparr>right_turn_sequence := Some sequence,
                         status_label := ''Turning Right...''\<rparr>)))))"

definition return_to_baseline :: "v3_state \<Rightarrow> py_error option \<times> v3_state" where
  "return_to_baseline s =
     (if \<not> is_streaming s then (None, log_message_v3 ''Please start streaming first'' s)
      else (None, log_message_v3 ''Returned to basic position (baseline)''
                    (s\<lparr>current_mode_v3 := ''BASELINE'',
                       status_label := ''Streaming Baseline...''\<rparr>)))"

section \<open>MetaHumanStreamerGUI (mh_streamer_gui.py)\<close>

text \<open>
  The values of the \<open>COMMANDS\<close> and \<open>MODES\<close> tables. The mode constructors are the
  display strings of \<open>MODES\<close>: \<open>Baseline\<close> is \<open>MODES['BASELINE']\<close>, while
  \<open>BASELINE\<close> is the command \<open>COMMANDS['BASELINE']\<close>.
\<close>

datatype command = START_HEARTBEAT | TURN_RIGHT | TURN_LEFT | BASELINE | STOP_ALL | QUIT

datatype mode = Idle | Heartbeat | Turning_Right | Turning_Left | Baseline | Stopped

record gui_channel =
  address :: string
  amp_right :: real
  amp_left :: real

text \<open>
  The fields of the GUI streamer that the worker thread reads or writes.
  \<^item> \<open>command_queue\<close> is the \<open>queue.Queue\<close>, oldest command first: \<open>put\<close> appends,
    \<open>get_nowait\<close> takes the head.
  \<^item> \<open>ramp_data\<close> is \<open>None\<close> or the list of per-channel arrays.
  \<^item> \<open>port_var\<close>, \<open>fps_var\<close>, \<open>duration_var\<close>, \<open>hold_var\<close> are the text fields as
    \<open>int()\<close> and \<open>float()\<close> read them, \<open>None\<close> where the conversion raises.
  \<^item> \<open>new_client\<close> is what \<open>SimpleUDPClient(ip, port)\<close> returns, \<open>None\<close> when the
    constructor raises.
  \<^item> \<open>osc_calls\<close> is the trace of the calls of \<open>osc_client.send_message\<close>, in call
    order, whether or not the call raised; \<open>log_text\<close> the messages of the log console.
  \<^item> \<open>after_queue\<close> holds the callbacks that the worker has scheduled with
    \<open>root.after(0, ...)\<close> and that the Tk main loop has not run yet, oldest first.
  Widgets that only display (status bar, connection indicator, statistics label) are left
  out, and so are the callbacks that only update them (\<open>update_connection_status\<close>,
  \<open>update_osc_stats\<close>).
\<close>

text \<open>
  The callbacks that the worker hands to the Tk main loop: \<open>lambda: self.update_status(...)\<close>,
  \<open>lambda: self.log_message(...)\<close> and
  \<open>lambda: self.command_queue.put(COMMANDS['START_HEARTBEAT'])\<close>.
\<close>

datatype tk_callback = UpdateStatus mode | LogMessage string | PutStartHeartbeat

record gui =
  osc_client :: "osc_client option"
  running :: bool
  command_queue :: "command list"
  current_mode :: mode
  channels :: "gui_channel list"
  ramp_data :: "real list list option"
  ramp_frame :: nat
  hold_frames :: int
  hold_frame :: int
  connection_active :: bool
  last_send_time :: real
  connection_timeout :: real
  osc_send_count :: nat
  osc_error_count :: nat
  port_var :: "int option"
  fps_var :: "int option"
  duration_var :: "real option"
  hold_var :: "real option"
  new_client :: "osc_client option"
  osc_calls :: "(string \<times> osc_arg) list"
  log_text :: "string list"
  after_queue :: "tk_callback list"

definition log_message :: "string \<Rightarrow> gui \<Rightarrow> gui" where
  "log_message message s = s\<lparr>log_text := log_text s @ [message]\<rparr>"

definition update_status :: "mode \<Rightarrow> gui \<Rightarrow> gui" where
  "update_status status s = s\<lparr>current_mode := status\<rparr>"

subsection \<open>The Tk main loop\<close>

text \<open>
  \<open>root.after(0, callback)\<close> only schedules: the callback joins the pending ones and
  runs later, on the Tk main loop. \<open>run_callback\<close> is what a callback does when it
  runs. \<open>tk_run n\<close> is the main loop running the \<open>n\<close> oldest pending callbacks (all
  of them when fewer are pending), in the order in which they were scheduled.
\<close>

definition root_after :: "tk_callback \<Rightarrow> gui \<Rightarrow> gui" where
  "root_after callback s = s\<lparr>after_queue := after_queue s @ [callback]\<rparr>"

fun run_callback :: "gui \<Rightarrow> tk_callback \<Rightarrow> gui" where
  "run_callback s (UpdateStatus status) = update_status status s"
| "run_callback s (LogMessage message) = log_message message s"
| "run_callback s PutStartHeartbeat = s\<lparr>command_queue := command_queue s @ [START_HEARTBEAT]\<rparr>"

definition tk_run :: "nat \<Rightarrow> gui \<Rightarrow> gui" where
  "tk_run n s =
     foldl run_callback (s\<lparr>after_queue := drop n (after_queue s)\<rparr>) (take n (after_queue s))"

subsection \<open>build_envelope\<close>

text \<open>
  \<open>np.linspace(start, stop, num)\<close> with its defaults: a negative \<open>num\<close> raises
  \<open>ValueError\<close>; otherwise the samples are \<open>start + i * step\<close> for \<open>i < num\<close> with
  \<open>step = (stop - start) / (num - 1)\<close> (for \<open>num \<le> 1\<close> numpy multiplies by
  \<open>stop - start\<close> instead), and for \<open>num > 1\<close> the last sample is overwritten by
  \<open>stop\<close>.
\<close>

definition linspace :: "real \<Rightarrow> real \<Rightarrow> int \<Rightarrow> py_error + real list" where
  "linspace start stop num =
     (if num < 0 then Inl ValueError
      else
        (let divisor = num - 1;
             delta = stop - start;
             y = map real [0..<nat num];
             y = (if divisor > 0 then map (\<lambda>v. v * (delta / real_of_int divisor)) y
                  else map (\<lambda>v. v * delta) y);
             y = map (\<lambda>v. v + start) y
         in Inr (if num > 1 then butlast y @ [stop] else y)))"

definition build_envelope :: "int \<Rightarrow> py_error + real list" where
  "build_envelope n_frames =
     (case linspace 0 1 n_frames of
        Inl e \<Rightarrow> Inl e
      | Inr t \<Rightarrow> Inr (map (\<lambda>t. 3 * t\<^sup>2 - 2 * t ^ 3) t))"

subsection \<open>Sending\<close>

text \<open>
  One guarded \<open>send_message\<close> inside a channel loop. The call is recorded; when it
  returns the local \<open>success_count\<close> grows; when it raises \<open>osc_error_count\<close> grows
  and, at the call sites that log, the logging of \<open>err_log\<close> is scheduled.
\<close>

fun try_send :: "osc_client \<Rightarrow> string option \<Rightarrow> string \<Rightarrow> real \<Rightarrow> gui \<times> nat \<Rightarrow> gui \<times> nat" where
  "try_send cl err_log addr v (s, success_count) =
     (let s' = s\<lparr>osc_calls := osc_calls s @ [(addr, OscFloat v)]\<rparr> in
      if cl addr (OscFloat v) then (s', success_count + 1)
      else
        (let s'' = s'\<lparr>osc_error_count := osc_error_count s' + 1\<rparr>
         in (case err_log of None \<Rightarrow> s'' | Some message \<Rightarrow> root_after (LogMessage message) s'',
             success_count)))"

text \<open>The tail shared by the senders: \<open>if success_count > 0: ...\<close>.\<close>

definition count_sends :: "real \<Rightarrow> gui \<times> nat \<Rightarrow> gui" where
  "count_sends now sn =
     (case sn of (s, success_count) \<Rightarrow>
        if success_count > 0
        then s\<lparr>osc_send_count := osc_send_count s + success_count, last_send_time := now\<rparr>
        else s)"

definition start_osc_client :: "real \<Rightarrow> gui \<Rightarrow> gui" where
  "start_osc_client now s =
     (case port_var s of
        None \<Rightarrow> log_message ''Failed to create OSC client'' (s\<lparr>connection_active := False\<rparr>)
      | Some port \<Rightarrow>
          (case new_client s of
             None \<Rightarrow> log_message ''Failed to create OSC client'' (s\<lparr>connection_active := False\<rparr>)
           | Some cl \<Rightarrow>
               log_message ''OSC client connected''
                 (s\<lparr>osc_client := Some cl, connection_active := True, last_send_time := now,
                    osc_send_count := 0, osc_error_count := 0\<rparr>)))"

definition send_heartbeat :: "real \<Rightarrow> gui \<Rightarrow> gui" where
  "send_heartbeat now s =
     (case osc_client s of
        None \<Rightarrow> s
      | Some cl \<Rightarrow>
          (if channels s = [] then s
           else count_sends now
                  (foldl (\<lambda>sn ch. try_send cl (Some ''OSC send error'') (address ch) 0 sn)
                     (s, 0) (channels s))))"

subsection \<open>Ramps\<close>

text \<open>Python's \<open>int()\<close> of a float truncates towards zero.\<close>

definition py_int :: "real \<Rightarrow> int" where
  "py_int x = (if 0 \<le> x then \<lfloor>x\<rfloor> else \<lceil>x\<rceil>)"

text \<open>
  \<open>start_ramp\<close>. Every channel gets the same envelope, so \<open>build_envelope\<close> raises for
  the first channel or for none; when it raises, \<open>ramp_data\<close> has already been reset to
  the empty list and the three counters keep their old values.
\<close>

definition start_ramp :: "string \<Rightarrow> gui \<Rightarrow> gui" where
  "start_ramp direction s =
     (if osc_client s = None \<or> channels s = [] then s
      else
        (case (duration_var s, fps_var s, hold_var s) of
           (Some duration, Some fps, Some hold) \<Rightarrow>
             (let ramp_frames = py_int (duration * real_of_int fps);
                  hold_frames' = py_int (hold * real_of_int fps)
              in case build_envelope ramp_frames of
                   Inl e \<Rightarrow> root_after (LogMessage ''Error starting ramp'') (s\<lparr>ramp_data := Some []\<rparr>)
                 | Inr envelope \<Rightarrow>
                     s\<lparr>ramp_data :=
                         Some (map (\<lambda>ch.
                                 (let amplitude =
                                        (if direction = ''right'' then amp_right ch
                                         else if direction = ''left'' then amp_left ch
                                         else 0)
                                  in map (\<lambda>e. amplitude * e) envelope))
                               (channels s)),
                       ramp_frame := 0, hold_frames := hold_frames', hold_frame := 0\<rparr>)
         | _ \<Rightarrow> root_after (LogMessage ''Error starting ramp'') s))"

text \<open>Indexing an array: \<open>row[i]\<close> for \<open>i \<ge> 0\<close> and \<open>row[-1]\<close>.\<close>

definition py_index :: "nat \<Rightarrow> real list \<Rightarrow> py_error + real" where
  "py_index i row = (if i < length row then Inr (row ! i) else Inl IndexError)"

definition py_last :: "real list \<Rightarrow> py_error + real" where
  "py_last row = (if row = [] then Inl IndexError else Inr (last row))"

text \<open>
  \<open>for i, channel in enumerate(self.channels)\<close> of \<open>send_ramp_frame\<close>: the value is
  read from \<open>ramp_data[i]\<close> by \<open>pick\<close> and sent. An \<open>IndexError\<close> of the read leaves the
  loop (it is caught by the \<open>try\<close> around the whole method); what was sent and counted
  before stays.
\<close>

fun ramp_loop ::
  "osc_client \<Rightarrow> (real list \<Rightarrow> py_error + real) \<Rightarrow> real list list \<Rightarrow> nat \<Rightarrow> gui_channel list \<Rightarrow>
     gui \<times> nat \<Rightarrow> py_error option \<times> gui \<times> nat" where
  "ramp_loop cl pick rd i [] sn = (None, sn)"
| "ramp_loop cl pick rd i (ch # rest) sn =
     (if i < length rd then
        (case pick (rd ! i) of
           Inl e \<Rightarrow> (Some e, sn)
         | Inr v \<Rightarrow> ramp_loop cl pick rd (Suc i) rest (try_send cl None (address ch) v sn))
      else (Some IndexError, sn))"

definition send_ramp_frame :: "real \<Rightarrow> gui \<Rightarrow> gui" where
  "send_ramp_frame now s =
     (case osc_client s of
        None \<Rightarrow> s
      | Some cl \<Rightarrow>
          (case ramp_data s of
             None \<Rightarrow> s
           | Some rd \<Rightarrow>
               (if rd = [] then s
                else if ramp_frame s \<ge> length (rd ! 0) then
                  (if hold_frame s < hold_frames s then
                     (case ramp_loop cl py_last rd 0 (channels s) (s, 0) of
                        (Some e, s1, success_count) \<Rightarrow> root_after (LogMessage ''Ramp send error'') s1
                      | (None, s1, success_count) \<Rightarrow> s1\<lparr>hold_frame := hold_frame s1 + 1\<rparr>)
                   else root_after PutStartHeartbeat s)
                else
                  (case ramp_loop cl (py_index (ramp_frame s)) rd 0 (channels s) (s, 0) of
                     (Some e, s1, success_count) \<Rightarrow> root_after (LogMessage ''Ramp send error'') s1
                   | (None, s1, success_count) \<Rightarrow>
                       (let s2 = count_sends now (s1, success_count);
                            s3 = (if ramp_frame s2 mod 10 = 0 \<and> length (channels s2) > 0
                                  then root_after (LogMessage ''Frame'') s2 else s2)
                        in s3\<lparr>ramp_frame := ramp_frame s3 + 1\<rparr>)))))"

definition stop_all :: "real \<Rightarrow> gui \<Rightarrow> gui" where
  "stop_all now s =
     (let s1 = s\<lparr>ramp_data := None, ramp_frame := 0, hold_frame := 0, connection_active := False\<rparr>
      in case osc_client s1 of
           None \<Rightarrow> s1
         | Some cl \<Rightarrow>
             (if channels s1 = [] then s1
              else count_sends now
                     (foldl (\<lambda>sn ch. try_send cl (Some ''Stop send error'') (address ch) 0 sn)
                        (s1, 0) (channels s1))))"

subsection \<open>The worker\<close>

definition handle_command :: "real \<Rightarrow> command \<Rightarrow> gui \<Rightarrow> gui" where
  "handle_command now cmd s =
     (case cmd of
        START_HEARTBEAT \<Rightarrow>
          root_after (LogMessage ''Started heartbeat streaming'')
            (root_after (UpdateStatus Heartbeat) (start_osc_client now s))
      | TURN_RIGHT \<Rightarrow>
          root_after (LogMessage ''Started right turn'')
            (root_after (UpdateStatus Turning_Right) (start_ramp ''right'' s))
      | TURN_LEFT \<Rightarrow>
          root_after (LogMessage ''Started left turn'')
            (root_after (UpdateStatus Turning_Left) (start_ramp ''left'' s))
      | BASELINE \<Rightarrow>
          root_after (LogMessage ''Started return to baseline'')
            (root_after (UpdateStatus Baseline) (start_ramp ''baseline'' s))
      | STOP_ALL \<Rightarrow>
          root_after (LogMessage ''Stopped all streaming'')
            (root_after (UpdateStatus Stopped) (stop_all now s))
      | QUIT \<Rightarrow> s\<lparr>running := False\<rparr>)"

definition check_connection_timeout :: "real \<Rightarrow> gui \<Rightarrow> gui" where
  "check_connection_timeout now s =
     (if connection_active s \<and> last_send_time s > 0 then
        (if now - last_send_time s > connection_timeout s
         then root_after (LogMessage ''Connection timeout - no recent OSC activity'')
                (s\<lparr>connection_active := False\<rparr>)
         else s)
      else s)"

text \<open>
  The three stages of the body of \<open>while self.running\<close>, in the order of the source.
  \<open>process_commands\<close> is the \<open>get_nowait\<close> block: an empty queue raises \<open>queue.Empty\<close>,
  which is passed over. \<open>handle_current_mode\<close> is the \<open>if\<close>/\<open>elif\<close> on the mode.
  \<open>frame_sleep\<close> is the sleep: reading the FPS field can raise, and so can the division
  and \<open>time.sleep\<close> for a FPS that is not positive; the loop's \<open>except\<close> schedules the
  logging of it.
  \<open>now\<close> is the clock reading of the iteration.
\<close>

definition process_commands :: "real \<Rightarrow> gui \<Rightarrow> gui" where
  "process_commands now s =
     (case command_queue s of
        [] \<Rightarrow> s
      | cmd # rest \<Rightarrow> handle_command now cmd (s\<lparr>command_queue := rest\<rparr>))"

definition handle_current_mode :: "real \<Rightarrow> gui \<Rightarrow> gui" where
  "handle_current_mode now s =
     (if current_mode s = Heartbeat then send_heartbeat now s
      else if current_mode s = Turning_Right \<or> current_mode s = Turning_Left \<or> current_mode s = Baseline
      then send_ramp_frame now s
      else s)"

definition frame_sleep :: "gui \<Rightarrow> gui" where
  "frame_sleep s =
     (case fps_var s of
        None \<Rightarrow> root_after (LogMessage ''Worker error'') s
      | Some fps \<Rightarrow> if fps > 0 then s else root_after (LogMessage ''Worker error'') s)"

definition worker_iteration :: "real \<Rightarrow> gui \<Rightarrow> gui" where
  "worker_iteration now s =
     frame_sleep (handle_current_mode now (check_connection_timeout now (process_commands now s)))"

text \<open>
  \<open>worker_loop\<close> runs as long as \<open>running\<close> holds, so it need not return. It is modelled
  on a finite schedule, one entry for each iteration: the clock reading of the iteration,
  and the number of pending callbacks that the Tk main loop runs while the worker sleeps
  at the end of it. The result is the object after these iterations, or after the
  iteration that found \<open>running\<close> false.
\<close>

fun worker_loop :: "(real \<times> nat) list \<Rightarrow> gui \<Rightarrow> gui" where
  "worker_loop [] s = s"
| "worker_loop ((now, tk) # later) s =
     (if running s then worker_loop later (tk_run tk (worker_iteration now s)) else s)"

text \<open>
  The commands that \<open>get_nowait\<close> hands to \<open>handle_command\<close> during the same
  iterations, in the order in which they are handled.
\<close>

fun handled_commands :: "(real \<times> nat) list \<Rightarrow> gui \<Rightarrow> command list" where
  "handled_commands [] s = []"
| "handled_commands ((now, tk) # later) s =
     (if running s
      then (case command_queue s of [] \<Rightarrow> [] | cmd # rest \<Rightarrow> [cmd])
             @ handled_commands later (tk_run tk (worker_iteration now s))
      else [])"

section \<open>The turn-command parser (osc_streamer_v3.parser)\<close>

text \<open>
  Modelled from the spec: the package \<open>osc_streamer_v3\<close> (\<open>parser.NLPParser\<close>,
  \<open>intents.TurnIntent\<close>) is not among the sources; only its tests
  (tests/test_parser.py, tests/test_router.py) are. The parser of v3/mh_streamer_v3.py
  (\<open>NLPCommandParser.parse_command\<close>) returns an action name, the text and a confidence,
  and no numeric parameter. What follows is section 4.4 of the spec from the point where
  the turn pattern has matched: \<open>turn_match\<close> holds what the pattern captured, and
  \<open>resolve_turn\<close> resolves the direction through the synonym table, seeds the numbers
  that are missing from the qualitative modifiers or the defaults, and clamps.
\<close>

record turn_match =
  scope_token :: "string option"
  direction_token :: string
  explicit_angle :: "real option"
  explicit_speed :: "real option"
  explicit_duration :: "real option"
  angle_modifier :: "string option"
  speed_modifier :: "string option"

record turn_intent =
  scope :: string
  direction :: string
  angle_deg :: real
  speed_deg_s :: real
  duration_s :: "real option"

datatype intent = TurnIntent turn_intent | UnknownIntent string string

text \<open>
  Modelled from the spec: the synonym table of the direction token
  (\<open>left\<close>/\<open>counterclockwise\<close>/\<open>ccw\<close> give \<open>left\<close>, and analogously for \<open>right\<close>).
\<close>

definition direction_synonyms :: "string \<rightharpoonup> string" where
  "direction_synonyms =
     [''left'' \<mapsto> ''left'', ''counterclockwise'' \<mapsto> ''left'', ''ccw'' \<mapsto> ''left'',
      ''right'' \<mapsto> ''right'', ''clockwise'' \<mapsto> ''right'', ''cw'' \<mapsto> ''right'']"

text \<open>
  Modelled from the spec: the angle modifiers \<open>"a little" \<rightarrow> 5.0\<close>, \<open>"a lot" \<rightarrow> 60.0\<close>.
\<close>

definition angle_modifiers :: "string \<rightharpoonup> real" where
  "angle_modifiers = [''a little'' \<mapsto> 5, ''a lot'' \<mapsto> 60]"

text \<open>
  Modelled from the spec: the speed modifiers \<open>"slowly" \<rightarrow> 30.0\<close>, \<open>"quickly" \<rightarrow> 270.0\<close>.
\<close>

definition speed_modifiers :: "string \<rightharpoonup> real" where
  "speed_modifiers = [''slowly'' \<mapsto> 30, ''quickly'' \<mapsto> 270]"

text \<open>
  Modelled from the spec: an explicit number is taken as it is; a missing one is seeded
  by the modifier, or by the default when there is no modifier either.
\<close>

definition seed :: "real option \<Rightarrow> real option \<Rightarrow> real \<Rightarrow> real" where
  "seed explicit modifier fallback =
     (case explicit of
        Some x \<Rightarrow> x
      | None \<Rightarrow> (case modifier of Some x \<Rightarrow> x | None \<Rightarrow> fallback))"

text \<open>
  Modelled from the spec: clamping a value to \<open>[lo, hi]\<close>.
\<close>

definition clamp_to :: "real \<Rightarrow> real \<Rightarrow> real \<Rightarrow> real" where
  "clamp_to lo hi x = max lo (min hi x)"

text \<open>
  Modelled from the spec: steps 2 to 5 of the parsing algorithm. The defaults are
  \<open>angle_deg = 15.0\<close>, \<open>speed_deg_s = 90.0\<close> and no duration; the clamps are
  \<open>[0, 180]\<close>, \<open>[1, 360]\<close> and \<open>[0, 10]\<close>, applied after defaults and modifiers. A
  direction token outside the synonym table is no match.
\<close>

definition resolve_turn :: "string \<Rightarrow> turn_match \<Rightarrow> intent" where
  "resolve_turn text m =
     (case direction_synonyms (direction_token m) of
        None \<Rightarrow> UnknownIntent text ''No matching pattern''
      | Some d \<Rightarrow>
          TurnIntent
            \<lparr>scope = (if scope_token m = Some ''head'' then ''head'' else ''body''),
             direction = d,
             angle_deg = clamp_to 0 180
               (seed (explicit_angle m) (Option.bind (angle_modifier m) angle_modifiers) 15),
             speed_deg_s = clamp_to 1 360
               (seed (explicit_speed m) (Option.bind (speed_modifier m) speed_modifiers) 90),
             duration_s = map_option (clamp_to 0 10) (explicit_duration m)\<rparr>)"

section \<open>Auxiliary definitions for the proofs\<close>

subsection \<open>The calls of one pass of the channel loop\<close>

text \<open>
  An auxiliary function for the proofs: the \<open>send_message\<close> calls that
  \<open>stream_channel\<close> makes for one channel, read off its three branches. Lemma
  \<open>stream_channel_calls\<close> below proves that it is what the loop body appends to the trace.
\<close>

definition channel_calls :: "v3_state \<Rightarrow> real list \<Rightarrow> channel \<Rightarrow> (string \<times> osc_arg) list" where
"channel_calls s d ch = (case channel_mapping s (source_column ch) of
    None \<Rightarrow> [(osc_address ch, OscFloat 0)]
  | Some i \<Rightarrow> if i < length d then [(osc_address ch, OscFloat (case clamp (transform ch) of
                       None \<Rightarrow> scale (transform ch) * (d ! i) + offset (transform ch)
                     | Some (clamp_min, clamp_max) \<Rightarrow> max clamp_min (min clamp_max (scale (transform ch) * (d ! i) + offset (transform ch)))))] else [])"

subsection \<open>The worker's state without its bookkeeping\<close>

text \<open>
  The sending functions of the GUI streamer change the trace of calls and, depending on
  whether sends succeed, the counters, the send time, the connection flag, the log and
  the pending callbacks.
  \<open>core\<close> resets these bookkeeping fields, so that two states can be compared on all
  the others at once.
\<close>

abbreviation core :: "gui \<Rightarrow> gui" where
  "core s \<equiv> s\<lparr>connection_active := False, last_send_time := 0, osc_send_count := 0,
              osc_error_count := 0, log_text := [], after_queue := []\<rparr>"

section \<open>Concrete inputs\<close>

text \<open>
  A small configuration for the closed examples: one channel whose source column is a
  known feature, one whose source column is not.
\<close>

definition pelvis_yaw :: channel where
  "pelvis_yaw = \<lparr>source_column = ''Pelvis_axial_rotation'', osc_address = ''/bone/pelvis/yaw'',
                  transform = \<lparr>scale = 2, offset = 1, clamp = Some (-5, 5)\<rparr>\<rparr>"

definition neck_yaw :: channel where
  "neck_yaw = \<lparr>source_column = ''Neck_right-ward_rotation'', osc_address = ''/bone/neck_01/yaw'',
                transform = \<lparr>scale = 1, offset = 0, clamp = None\<rparr>\<rparr>"

definition demo_v3 :: v3_state where
  "demo_v3 = \<lparr>osc_client_v3 = Some (\<lambda>addr v. True),
     normalization_params = Some \<lparr>mean = [10, 0], std = [2, 1]\<rparr>,
     channels_v3 = [pelvis_yaw, neck_yaw],
     channel_mapping = [''Pelvis_axial_rotation'' \<mapsto> 0],
     is_streaming = False,
     current_mode_v3 = ''BASELINE'',
     left_turn_model = Some 1, right_turn_model = Some 2,
     left_turn_sequence = None, right_turn_sequence = None,
     left_turn_data = Some [[[1, 1]]], right_turn_data = Some [[[2, 2]]],
     duration_var_v3 = Some 2,
     status_label = ''Ready'',
     show_data = True,
     osc_send_count_v3 = 0, osc_error_count_v3 = 0, last_send_time_v3 = 0,
     osc_calls_v3 = [], log_text_v3 = []\<rparr>"

text \<open>The same configuration with a client that raises on \<open>/mh/frame\<close>.\<close>

definition frame_rejected_v3 :: v3_state where
  "frame_rejected_v3 = demo_v3\<lparr>osc_client_v3 := Some (\<lambda>addr x. addr \<noteq> ''/mh/frame'')\<rparr>"

text \<open>
  The GUI streamer as \<open>__init__\<close> leaves it with two channels loaded and valid text
  fields (\<open>demo_gui\<close>), and variants of it: streaming, with a right turn of three
  frames and a hold of two queued (\<open>ramp_gui\<close>); in the mode of a right turn
  (\<open>turning_gui\<close>); with a right turn of one frame and a hold of two queued
  (\<open>one_frame_gui\<close>); about to start streaming with a port field that is not a number
  (\<open>no_port_gui\<close>); streaming the heartbeat (\<open>heartbeat_gui\<close>); with a burst of five
  commands queued (\<open>burst_gui\<close>).
\<close>

definition demo_gui :: gui where
  "demo_gui = \<lparr>osc_client = None, running = True, command_queue = [],
     current_mode = Idle,
     channels = [\<lparr>address = ''/bone/pelvis/yaw'', amp_right = 30, amp_left = -30\<rparr>,
                 \<lparr>address = ''/bone/spine_01/yaw'', amp_right = 10, amp_left = -10\<rparr>],
     ramp_data = None, ramp_frame = 0, hold_frames = 0, hold_frame = 0,
     connection_active = False, last_send_time = 0, connection_timeout = 2,
     osc_send_count = 0, osc_error_count = 0,
     port_var = Some 8000, fps_var = Some 60, duration_var = Some (3 / 2), hold_var = Some 0,
     new_client = Some (\<lambda>addr v. True),
     osc_calls = [], log_text = [], after_queue = []\<rparr>"

definition ramp_gui :: gui where
  "ramp_gui = demo_gui\<lparr>osc_client := Some (\<lambda>addr v. True), current_mode := Heartbeat,
     command_queue := [TURN_RIGHT], duration_var := Some (1 / 20), hold_var := Some (1 / 30)\<rparr>"

definition turning_gui :: gui where
  "turning_gui = demo_gui\<lparr>osc_client := Some (\<lambda>addr v. True), current_mode := Turning_Right\<rparr>"

definition one_frame_gui :: gui where
  "one_frame_gui = demo_gui\<lparr>osc_client := Some (\<lambda>addr v. True), current_mode := Heartbeat,
     command_queue := [TURN_RIGHT], duration_var := Some (1 / 60), hold_var := Some (1 / 30)\<rparr>"

definition no_port_gui :: gui where
  "no_port_gui = demo_gui\<lparr>port_var := None, command_queue := [START_HEARTBEAT]\<rparr>"

definition heartbeat_gui :: gui where
  "heartbeat_gui = demo_gui\<lparr>osc_client := Some (\<lambda>addr v. True), current_mode := Heartbeat\<rparr>"

definition burst_gui :: gui where
  "burst_gui = demo_gui\<lparr>duration_var := Some (1 / 20),
     command_queue := [START_HEARTBEAT, TURN_LEFT, STOP_ALL, QUIT, BASELINE]\<rparr>"

text \<open>What the turn pattern captures from \<open>turn left 200 degrees for 20 seconds\<close>.\<close>

definition turn_left_200 :: turn_match where
  "turn_left_200 = \<lparr>scope_token = None, direction_token = ''left'', explicit_angle = Some 200,
     explicit_speed = None, explicit_duration = Some 20, angle_modifier = None,
     speed_modifier = None\<rparr>"

section \<open>Properties of the v3 frame sender\<close>

lemma send_counted_fields:
  "channel_mapping (fst (send_counted cl a v sn)) = channel_mapping (fst sn)"
  "osc_calls_v3 (fst (send_counted cl a v sn)) = osc_calls_v3 (fst sn) @ [(a, v)]"
  by (cases sn; simp add: Let_def log_message_v3_def)+

lemma stream_channel_mapping:
  "channel_mapping (fst (stream_channel cl d sn ch)) = channel_mapping (fst sn)"
  by (cases sn) (simp add: send_counted_fields Let_def del: send_counted.simps split: option.splits prod.splits)

lemma stream_channel_calls:
  "osc_calls_v3 (fst (stream_channel cl d sn ch)) = osc_calls_v3 (fst sn) @ channel_calls (fst sn) d ch"
  by (cases sn) (simp add: send_counted_fields channel_calls_def Let_def del: send_counted.simps split: option.splits prod.splits)

lemma foldl_stream_channel_mapping:
  "channel_mapping (fst (foldl (stream_channel cl d) sn cs)) = channel_mapping (fst sn)"
  by (induction cs arbitrary: sn) (simp_all add: stream_channel_mapping)

lemma channel_calls_cong: "channel_mapping s = channel_mapping t \<Longrightarrow> channel_calls s d ch = channel_calls t d ch"
  by (simp add: channel_calls_def)

lemma foldl_stream_channel_calls:
  "osc_calls_v3 (fst (foldl (stream_channel cl d) sn cs)) =
     osc_calls_v3 (fst sn) @ concat (map (channel_calls (fst sn) d) cs)"
proof (induction cs arbitrary: sn)
  case Nil
  then show ?case by simp
next
  case (Cons c cs)
  have "channel_calls (fst (stream_channel cl d sn c)) d = channel_calls (fst sn) d"
    by (rule ext) (rule channel_calls_cong, rule stream_channel_mapping)
  with Cons[of "stream_channel cl d sn c"] show ?case
    by (simp add: stream_channel_calls)
qed

lemma denormalize_some:
  assumes "normalization_params s = Some p" "length (std p) = length v" "length (mean p) = length v"
  shows "denormalize_data s v = Inr (map (\<lambda>i. v ! i * std p ! i + mean p ! i) [0..<length v])"
  using assms by (auto simp: denormalize_data_def broadcast_def intro!: nth_equalityI)

lemma send_control_calls:
  "\<exists>ms. osc_calls_v3 (fst (send_control cl fc sn)) = osc_calls_v3 (fst sn) @ ms"
  by (cases sn) (simp add: Let_def log_message_v3_def)

lemma stream_frame_calls:
  assumes "osc_client_v3 s = Some cl" "channels_v3 s \<noteq> []" "denormalize_data s v = Inr d"
  shows "\<exists>ms. osc_calls_v3 (stream_frame now s v fc) =
           osc_calls_v3 s @ concat (map (channel_calls s d) (channels_v3 s)) @ ms"
proof -
  let ?r = "foldl (stream_channel cl d) (s, 0) (channels_v3 s)"
  obtain ms where ms: "osc_calls_v3 (fst (send_control cl fc ?r)) = osc_calls_v3 (fst ?r) @ ms"
    using send_control_calls by blast
  have "osc_calls_v3 (stream_frame now s v fc) = osc_calls_v3 (fst (send_control cl fc ?r))"
    using assms by (simp add: stream_frame_def Let_def log_message_v3_def split: prod.splits del: send_control.simps)
  then show ?thesis using ms foldl_stream_channel_calls[of cl d "(s, 0)" "channels_v3 s"] by simp
qed

lemma in_frame:
  "ch \<in> set cs \<Longrightarrow> x \<in> set (f ch) \<Longrightarrow> x \<in> set (drop (length xs) (xs @ concat (map f cs) @ ms))"
  by auto

text \<open>
  Claim C9. When \<open>normalization_params\<close> is \<open>None\<close>, \<open>denormalize_data\<close> returns
  its input unchanged, for every input vector: it returns normally (\<open>Inr\<close>) and the
  result is the input itself, so the frame is streamed without denormalisation.
\<close>

theorem denormalize_data_identity:
  assumes "normalization_params s = None"
  shows "denormalize_data s normalized_data = Inr normalized_data"
  using assms by (simp add: denormalize_data_def)

theorem denormalize_data_identity_witness:
  "denormalize_data (demo_v3\<lparr>normalization_params := None\<rparr>) [3, 4] = Inr [3, 4]"
  using denormalize_data_identity [of "demo_v3\<lparr>normalization_params := None\<rparr>" "[3, 4]"]
  by simp

text \<open>
  Claim C1. Let the normalisation parameters be loaded, with \<open>mean\<close> and \<open>std\<close> as
  long as the frame vector \<open>v\<close>, and let a client exist. For every configured channel
  whose source column is mapped to a feature index \<open>i\<close> of the frame, \<open>stream_frame\<close>
  calls \<open>send_message\<close> on the channel's address with the value
  \<open>scale * (v[i] * std[i] + mean[i]) + offset\<close>, clamped as
  \<open>max clamp_min (min clamp_max value)\<close> when the channel has a clamp. The call is among
  those that this frame adds to the trace.
\<close>

theorem stream_frame_channel_value:
  assumes "osc_client_v3 s = Some cl"
    and "normalization_params s = Some p"
    and "length (std p) = length v" and "length (mean p) = length v"
    and "ch \<in> set (channels_v3 s)"
    and "channel_mapping s (source_column ch) = Some i" and "i < length v"
  shows "(osc_address ch,
          OscFloat (case clamp (transform ch) of
             None \<Rightarrow> scale (transform ch) * (v ! i * std p ! i + mean p ! i) + offset (transform ch)
           | Some (clamp_min, clamp_max) \<Rightarrow>
               max clamp_min (min clamp_max
                 (scale (transform ch) * (v ! i * std p ! i + mean p ! i) + offset (transform ch)))))
         \<in> set (drop (length (osc_calls_v3 s)) (osc_calls_v3 (stream_frame now s v fc)))"
proof -
  let ?d = "map (\<lambda>i. v ! i * std p ! i + mean p ! i) [0..<length v]"
  have d: "denormalize_data s v = Inr ?d"
    using assms by (simp add: denormalize_some)
  have ne: "channels_v3 s \<noteq> []" using assms(5) by auto
  obtain ms where ms: "osc_calls_v3 (stream_frame now s v fc) =
      osc_calls_v3 s @ concat (map (channel_calls s ?d) (channels_v3 s)) @ ms"
    using stream_frame_calls[OF assms(1) ne d] by blast
  have "channel_calls s ?d ch = [(osc_address ch,
          OscFloat (case clamp (transform ch) of
             None \<Rightarrow> scale (transform ch) * (v ! i * std p ! i + mean p ! i) + offset (transform ch)
           | Some (clamp_min, clamp_max) \<Rightarrow>
               max clamp_min (min clamp_max
                 (scale (transform ch) * (v ! i * std p ! i + mean p ! i) + offset (transform ch)))))]"
    using assms(6,7) by (simp add: channel_calls_def split: option.splits)
  then have "(osc_address ch,
          OscFloat (case clamp (transform ch) of
             None \<Rightarrow> scale (transform ch) * (v ! i * std p ! i + mean p ! i) + offset (transform ch)
           | Some (clamp_min, clamp_max) \<Rightarrow>
               max clamp_min (min clamp_max
                 (scale (transform ch) * (v ! i * std p ! i + mean p ! i) + offset (transform ch)))))
         \<in> set (channel_calls s ?d ch)" by simp
  then show ?thesis unfolding ms using assms(5) by (rule_tac in_frame)
qed

theorem stream_frame_channel_value_witness:
  "(''/bone/pelvis/yaw'', OscFloat 5)
     \<in> set (drop (length (osc_calls_v3 demo_v3)) (osc_calls_v3 (stream_frame 0 demo_v3 [3, 4] 0)))"
  using stream_frame_channel_value [of demo_v3 "\<lambda>addr v. True" "\<lparr>mean = [10, 0], std = [2, 1]\<rparr>" "[3, 4]" pelvis_yaw 0 0 0]
  by (simp add: demo_v3_def pelvis_yaw_def)


lemma stream_channel_counts:
  "snd (stream_channel cl d sn ch) =
     snd sn + length (filter (\<lambda>(addr, x). cl addr x) (channel_calls (fst sn) d ch))"
  "osc_error_count_v3 (fst (stream_channel cl d sn ch)) =
     osc_error_count_v3 (fst sn)
       + length (filter (\<lambda>(addr, x). \<not> cl addr x) (channel_calls (fst sn) d ch))"
  "osc_send_count_v3 (fst (stream_channel cl d sn ch)) = osc_send_count_v3 (fst sn)"
  "current_mode_v3 (fst (stream_channel cl d sn ch)) = current_mode_v3 (fst sn)"
  by (cases sn; simp add: channel_calls_def Let_def log_message_v3_def
        split: option.splits prod.splits)+

lemma foldl_stream_channel_counts:
  "snd (foldl (stream_channel cl d) sn cs) =
     snd sn + length (filter (\<lambda>(addr, x). cl addr x) (concat (map (channel_calls (fst sn) d) cs)))
   \<and> osc_error_count_v3 (fst (foldl (stream_channel cl d) sn cs)) =
       osc_error_count_v3 (fst sn)
         + length (filter (\<lambda>(addr, x). \<not> cl addr x) (concat (map (channel_calls (fst sn) d) cs)))
   \<and> osc_send_count_v3 (fst (foldl (stream_channel cl d) sn cs)) = osc_send_count_v3 (fst sn)
   \<and> current_mode_v3 (fst (foldl (stream_channel cl d) sn cs)) = current_mode_v3 (fst sn)"
proof (induction cs arbitrary: sn)
  case Nil
  show ?case by simp
next
  case (Cons c cs)
  have "channel_calls (fst (stream_channel cl d sn c)) d = channel_calls (fst sn) d"
    by (rule ext) (rule channel_calls_cong, rule stream_channel_mapping)
  with Cons[of "stream_channel cl d sn c"] show ?case
    by (simp add: stream_channel_counts)
qed

lemma send_control_counts:
  "osc_calls_v3 (fst (send_control cl fc (s, n))) =
     osc_calls_v3 s
       @ (if cl ''/mh/frame'' (OscInt (int fc))
          then [(''/mh/frame'', OscInt (int fc)), (''/mh/mode'', OscStr (current_mode_v3 s))]
          else [(''/mh/frame'', OscInt (int fc))])"
  "snd (send_control cl fc (s, n)) =
     n + (if cl ''/mh/frame'' (OscInt (int fc)) \<and> cl ''/mh/mode'' (OscStr (current_mode_v3 s))
          then 2 else 0)"
  "osc_error_count_v3 (fst (send_control cl fc (s, n))) =
     osc_error_count_v3 s
       + (if cl ''/mh/frame'' (OscInt (int fc)) \<and> cl ''/mh/mode'' (OscStr (current_mode_v3 s))
          then 0 else 1)"
  "osc_send_count_v3 (fst (send_control cl fc (s, n))) = osc_send_count_v3 s"
  by (simp_all add: Let_def log_message_v3_def)

lemma stream_frame_counts:
  assumes "osc_client_v3 s = Some cl" "channels_v3 s \<noteq> []" "denormalize_data s v = Inr d"
  shows "osc_calls_v3 (stream_frame now s v fc) =
           osc_calls_v3 s @ concat (map (channel_calls s d) (channels_v3 s))
             @ (if cl ''/mh/frame'' (OscInt (int fc))
                then [(''/mh/frame'', OscInt (int fc)), (''/mh/mode'', OscStr (current_mode_v3 s))]
                else [(''/mh/frame'', OscInt (int fc))])"
    and "osc_send_count_v3 (stream_frame now s v fc) =
           osc_send_count_v3 s
             + length (filter (\<lambda>(addr, x). cl addr x) (concat (map (channel_calls s d) (channels_v3 s))))
             + (if cl ''/mh/frame'' (OscInt (int fc)) \<and> cl ''/mh/mode'' (OscStr (current_mode_v3 s))
                then 2 else 0)"
    and "osc_error_count_v3 (stream_frame now s v fc) =
           osc_error_count_v3 s
             + length (filter (\<lambda>(addr, x). \<not> cl addr x) (concat (map (channel_calls s d) (channels_v3 s))))
             + (if cl ''/mh/frame'' (OscInt (int fc)) \<and> cl ''/mh/mode'' (OscStr (current_mode_v3 s))
                then 0 else 1)"
proof -
  let ?r = "foldl (stream_channel cl d) (s, 0) (channels_v3 s)"
  obtain s1 n1 where r: "?r = (s1, n1)" by (cases ?r)
  have f: "n1 = length (filter (\<lambda>(addr, x). cl addr x) (concat (map (channel_calls s d) (channels_v3 s))))"
      "osc_error_count_v3 s1 = osc_error_count_v3 s
         + length (filter (\<lambda>(addr, x). \<not> cl addr x) (concat (map (channel_calls s d) (channels_v3 s))))"
      "osc_send_count_v3 s1 = osc_send_count_v3 s" "current_mode_v3 s1 = current_mode_v3 s"
    using foldl_stream_channel_counts[of cl d "(s, 0)" "channels_v3 s"] r by simp_all
  have c: "osc_calls_v3 s1 = osc_calls_v3 s @ concat (map (channel_calls s d) (channels_v3 s))"
    using foldl_stream_channel_calls[of cl d "(s, 0)" "channels_v3 s"] r by simp
  obtain s2 n2 where s2: "send_control cl fc (s1, n1) = (s2, n2)" by (cases "send_control cl fc (s1, n1)")
  note sc = send_control_counts[of cl fc s1 n1, unfolded s2 fst_conv snd_conv]
  have e: "stream_frame now s v fc =
      (let s3 = s2\<lparr>osc_send_count_v3 := osc_send_count_v3 s2 + n2, last_send_time_v3 := now\<rparr>
       in if show_data s3 \<and> fc mod 10 = 0 then log_message_v3 ''Frame'' s3 else s3)"
    using assms r s2 by (simp add: stream_frame_def del: send_control.simps)
  show "osc_calls_v3 (stream_frame now s v fc) =
           osc_calls_v3 s @ concat (map (channel_calls s d) (channels_v3 s))
             @ (if cl ''/mh/frame'' (OscInt (int fc))
                then [(''/mh/frame'', OscInt (int fc)), (''/mh/mode'', OscStr (current_mode_v3 s))]
                else [(''/mh/frame'', OscInt (int fc))])"
    unfolding e using sc(1) c f(4) by (simp add: Let_def log_message_v3_def)
  show "osc_send_count_v3 (stream_frame now s v fc) =
           osc_send_count_v3 s
             + length (filter (\<lambda>(addr, x). cl addr x) (concat (map (channel_calls s d) (channels_v3 s))))
             + (if cl ''/mh/frame'' (OscInt (int fc)) \<and> cl ''/mh/mode'' (OscStr (current_mode_v3 s))
                then 2 else 0)"
    unfolding e using sc(2,4) f(1,3,4) by (simp add: Let_def log_message_v3_def)
  show "osc_error_count_v3 (stream_frame now s v fc) =
           osc_error_count_v3 s
             + length (filter (\<lambda>(addr, x). \<not> cl addr x) (concat (map (channel_calls s d) (channels_v3 s))))
             + (if cl ''/mh/frame'' (OscInt (int fc)) \<and> cl ''/mh/mode'' (OscStr (current_mode_v3 s))
                then 0 else 1)"
    unfolding e using sc(3) f(2,4) by (simp add: Let_def log_message_v3_def)
qed

text \<open>
  Claim C6, as the code has it. For every configured channel whose source column has no
  entry in \<open>channel_mapping\<close>, \<open>stream_frame\<close> calls \<open>send_message\<close> on the channel's
  address with the value \<open>0.0\<close> (given a client, and a frame that \<open>denormalize_data\<close>
  accepts); it does not raise. The object has two counters only, and the fallback is
  counted like every other send of the channel loop, whatever the client does with the
  other messages: the calls of the frame are those of the channel loop (\<open>sent\<close>, the
  fallback among them) followed by the control messages; \<open>osc_send_count\<close> grows by one
  for each call of \<open>sent\<close> that the client accepts (and by two when both control messages
  are accepted), \<open>osc_error_count\<close> by one for each call of \<open>sent\<close> on which the client
  raises (and by one when a control message fails). So a fallback send that succeeds adds
  one to \<open>osc_send_count\<close> and nothing to \<open>osc_error_count\<close>, and no counter records
  the miss itself.
\<close>

theorem stream_frame_unmapped_fallback:
  assumes "osc_client_v3 s = Some cl"
    and "denormalize_data s v = Inr d"
    and "ch \<in> set (channels_v3 s)"
    and "channel_mapping s (source_column ch) = None"
  shows "(osc_address ch, OscFloat 0)
           \<in> set (drop (length (osc_calls_v3 s)) (osc_calls_v3 (stream_frame now s v fc)))
       \<and> (\<exists>sent control.
             osc_calls_v3 (stream_frame now s v fc) = osc_calls_v3 s @ sent @ control
           \<and> (osc_address ch, OscFloat 0) \<in> set sent
           \<and> control =
               (if cl ''/mh/frame'' (OscInt (int fc))
                then [(''/mh/frame'', OscInt (int fc)), (''/mh/mode'', OscStr (current_mode_v3 s))]
                else [(''/mh/frame'', OscInt (int fc))])
           \<and> osc_send_count_v3 (stream_frame now s v fc) =
               osc_send_count_v3 s
                 + length (filter (\<lambda>(addr, x). cl addr x) sent)
                 + (if cl ''/mh/frame'' (OscInt (int fc))
                       \<and> cl ''/mh/mode'' (OscStr (current_mode_v3 s)) then 2 else 0)
           \<and> osc_error_count_v3 (stream_frame now s v fc) =
               osc_error_count_v3 s
                 + length (filter (\<lambda>(addr, x). \<not> cl addr x) sent)
                 + (if cl ''/mh/frame'' (OscInt (int fc))
                       \<and> cl ''/mh/mode'' (OscStr (current_mode_v3 s)) then 0 else 1))"
proof -
  have ne: "channels_v3 s \<noteq> []" using assms(3) by auto
  let ?sent = "concat (map (channel_calls s d) (channels_v3 s))"
  note k = stream_frame_counts[OF assms(1) ne assms(2), of now fc]
  have "(osc_address ch, OscFloat 0) \<in> set (channel_calls s d ch)"
    using assms(4) by (simp add: channel_calls_def)
  then have m: "(osc_address ch, OscFloat 0) \<in> set ?sent"
    using assms(3) by auto
  then have "(osc_address ch, OscFloat 0)
           \<in> set (drop (length (osc_calls_v3 s)) (osc_calls_v3 (stream_frame now s v fc)))"
    unfolding k(1) by simp
  moreover have "\<exists>sent control.
             osc_calls_v3 (stream_frame now s v fc) = osc_calls_v3 s @ sent @ control
           \<and> (osc_address ch, OscFloat 0) \<in> set sent
           \<and> control =
               (if cl ''/mh/frame'' (OscInt (int fc))
                then [(''/mh/frame'', OscInt (int fc)), (''/mh/mode'', OscStr (current_mode_v3 s))]
                else [(''/mh/frame'', OscInt (int fc))])
           \<and> osc_send_count_v3 (stream_frame now s v fc) =
               osc_send_count_v3 s
                 + length (filter (\<lambda>(addr, x). cl addr x) sent)
                 + (if cl ''/mh/frame'' (OscInt (int fc))
                       \<and> cl ''/mh/mode'' (OscStr (current_mode_v3 s)) then 2 else 0)
           \<and> osc_error_count_v3 (stream_frame now s v fc) =
               osc_error_count_v3 s
                 + length (filter (\<lambda>(addr, x). \<not> cl addr x) sent)
                 + (if cl ''/mh/frame'' (OscInt (int fc))
                       \<and> cl ''/mh/mode'' (OscStr (current_mode_v3 s)) then 0 else 1)"
    using k m by (intro exI[of _ ?sent] exI[of _ "if cl ''/mh/frame'' (OscInt (int fc))
                then [(''/mh/frame'', OscInt (int fc)), (''/mh/mode'', OscStr (current_mode_v3 s))]
                else [(''/mh/frame'', OscInt (int fc))]"]) simp
  ultimately show ?thesis by blast
qed

text \<open>
  The theorem at a frame in which the client raises on \<open>/mh/frame\<close> and accepts the
  rest: the fallback and the mapped channel are counted as two sends, the failed control
  message as one error.
\<close>

theorem stream_frame_unmapped_fallback_witness:
  "(''/bone/neck_01/yaw'', OscFloat 0)
      \<in> set (drop (length (osc_calls_v3 frame_rejected_v3))
                (osc_calls_v3 (stream_frame 0 frame_rejected_v3 [3, 4] 0)))
   \<and> osc_calls_v3 (stream_frame 0 frame_rejected_v3 [3, 4] 0) =
        [(''/bone/pelvis/yaw'', OscFloat 5), (''/bone/neck_01/yaw'', OscFloat 0),
         (''/mh/frame'', OscInt 0)]
   \<and> osc_send_count_v3 (stream_frame 0 frame_rejected_v3 [3, 4] 0) = 2
   \<and> osc_error_count_v3 (stream_frame 0 frame_rejected_v3 [3, 4] 0) = 1"
proof -
  have d: "denormalize_data frame_rejected_v3 [3, 4] = Inr [16, 4]"
    by (simp add: denormalize_data_def broadcast_def frame_rejected_v3_def demo_v3_def)
  have pre: "osc_client_v3 frame_rejected_v3 = Some (\<lambda>addr x. addr \<noteq> ''/mh/frame'')"
      "neck_yaw \<in> set (channels_v3 frame_rejected_v3)"
      "channel_mapping frame_rejected_v3 (source_column neck_yaw) = None"
      "osc_address neck_yaw = ''/bone/neck_01/yaw''"
    by (simp_all add: frame_rejected_v3_def demo_v3_def neck_yaw_def)
  have run: "osc_calls_v3 (stream_frame 0 frame_rejected_v3 [3, 4] 0) =
        [(''/bone/pelvis/yaw'', OscFloat 5), (''/bone/neck_01/yaw'', OscFloat 0),
         (''/mh/frame'', OscInt 0)]
     \<and> osc_send_count_v3 (stream_frame 0 frame_rejected_v3 [3, 4] 0) = 2
     \<and> osc_error_count_v3 (stream_frame 0 frame_rejected_v3 [3, 4] 0) = 1"
    by (simp add: stream_frame_def denormalize_data_def broadcast_def frame_rejected_v3_def
          demo_v3_def neck_yaw_def pelvis_yaw_def log_message_v3_def Let_def)
  show ?thesis
    using conjunct1[OF stream_frame_unmapped_fallback [OF pre(1) d pre(2,3), of 0 0]] run
    unfolding pre(4) by blast
qed

text \<open>
  Claim C6 as stated asks for the miss to be counted as a mapping miss. A frame with one
  channel, whose source column is not mapped, changes the object as follows and in no
  other way: three sends are counted (the fallback and the two control messages), the
  send time is set, the three calls are recorded and the frame is logged.
\<close>

theorem mapping_miss_counted_as_send:
  "stream_frame 7 (demo_v3\<lparr>channels_v3 := [neck_yaw]\<rparr>) [3, 4] 0 =
     demo_v3\<lparr>channels_v3 := [neck_yaw],
             osc_send_count_v3 := 3, last_send_time_v3 := 7,
             osc_calls_v3 := [(''/bone/neck_01/yaw'', OscFloat 0),
                              (''/mh/frame'', OscInt 0), (''/mh/mode'', OscStr ''BASELINE'')],
             log_text_v3 := [''Frame'']\<rparr>"
  by (simp add: stream_frame_def denormalize_data_def broadcast_def demo_v3_def neck_yaw_def
        log_message_v3_def Let_def)

text \<open>
  Claim C10. Whenever \<open>is_streaming\<close> is false, each of \<open>start_left_turn\<close>,
  \<open>start_right_turn\<close> and \<open>return_to_baseline\<close> returns without raising and leaves
  the object as it was but for one more log message; \<open>current_mode\<close> and the stored
  turn sequences in particular are unchanged.
\<close>

theorem not_streaming_no_mode_change:
  assumes "\<not> is_streaming s"
  shows "start_left_turn s = (None, s\<lparr>log_text_v3 := log_text_v3 s @ [''Please start streaming first'']\<rparr>)
       \<and> start_right_turn s = (None, s\<lparr>log_text_v3 := log_text_v3 s @ [''Please start streaming first'']\<rparr>)
       \<and> return_to_baseline s = (None, s\<lparr>log_text_v3 := log_text_v3 s @ [''Please start streaming first'']\<rparr>)"
  using assms
  by (simp add: start_left_turn_def start_right_turn_def return_to_baseline_def log_message_v3_def)

theorem not_streaming_no_mode_change_witness:
  "start_left_turn demo_v3 = (None, demo_v3\<lparr>log_text_v3 := [''Please start streaming first'']\<rparr>)
   \<and> start_right_turn demo_v3 = (None, demo_v3\<lparr>log_text_v3 := [''Please start streaming first'']\<rparr>)
   \<and> return_to_baseline demo_v3 = (None, demo_v3\<lparr>log_text_v3 := [''Please start streaming first'']\<rparr>)"
  using not_streaming_no_mode_change [of demo_v3]
  by (simp add: demo_v3_def)

section \<open>Properties of the GUI streamer\<close>

subsection \<open>The envelope\<close>

lemma linspace_unit:
  assumes "num > 1"
  shows "linspace 0 1 num = Inr (map (\<lambda>i. real i / real (nat num - 1)) [0..<nat num])"
proof -
  let ?n = "nat num"
  let ?y = "map (\<lambda>v. v + 0) (map (\<lambda>v. v * ((1 - 0) / real_of_int (num - 1))) (map real [0..<?n]))"
  have n: "?n > 1" "real_of_int (num - 1) = real (?n - 1)" using assms by auto
  have y: "?y = map (\<lambda>i. real i / real (?n - 1)) [0..<?n]"
    using n by simp
  have "last ?y = 1" unfolding y using n by (simp add: last_map)
  moreover have "?y \<noteq> []" using n by simp
  ultimately have "butlast ?y @ [1] = ?y" by (metis append_butlast_last_id)
  then show ?thesis using assms y by (simp add: linspace_def Let_def)
qed

lemma ease_mono:
  fixes a b :: real
  assumes "0 \<le> a" "a \<le> b" "b \<le> 1"
  shows "3 * a\<^sup>2 - 2 * a ^ 3 \<le> 3 * b\<^sup>2 - 2 * b ^ 3"
proof -
  have a2: "a * a \<le> a" using assms by (simp add: mult_left_le)
  have b2: "b * b \<le> b" using assms by (simp add: mult_left_le)
  have ab1: "a * b \<le> a" using assms by (simp add: mult_left_le)
  have "a * b \<le> 1 * b" using assms by (intro mult_right_mono) simp_all
  then have ab2: "a * b \<le> b" by simp
  have "2 * (a * a) + 2 * (a * b) + 2 * (b * b) \<le> 3 * a + 3 * b"
    using a2 b2 ab1 ab2 by linarith
  then have "0 \<le> 3 * (a + b) - 2 * (a * a + a * b + b * b)"
    by (simp add: algebra_simps)
  then have "0 \<le> (b - a) * (3 * (a + b) - 2 * (a * a + a * b + b * b))"
    using assms by simp
  also have "\<dots> = (3 * b\<^sup>2 - 2 * b ^ 3) - (3 * a\<^sup>2 - 2 * a ^ 3)"
    by (simp add: algebra_simps power2_eq_square power3_eq_cube)
  finally show ?thesis by simp
qed

lemma build_envelope_rows:
  assumes "0 < n"
  shows "\<exists>envelope. build_envelope n = Inr envelope \<and> length envelope = nat n
           \<and> last envelope = (if n = 1 then 0 else 1)"
proof (cases "n = 1")
  case True
  then show ?thesis by (simp add: build_envelope_def linspace_def)
next
  case False
  then have n: "1 < n" using assms by simp
  let ?m = "nat n"
  let ?e = "map (\<lambda>i. 3 * (real i / real (?m - 1))\<^sup>2 - 2 * (real i / real (?m - 1)) ^ 3) [0..<?m]"
  have m: "?m > 1" using n by simp
  have "build_envelope n = Inr ?e"
    using n by (simp add: build_envelope_def linspace_unit comp_def)
  moreover have "length ?e = ?m" by simp
  moreover have "last ?e = 1" using m by (simp add: last_map)
  ultimately show ?thesis using False by (intro exI[of _ ?e]) simp
qed

text \<open>
  Claim C3. For every \<open>n > 1\<close>, \<open>build_envelope n\<close> returns a sequence of length
  \<open>n\<close> whose elements all lie in \<open>[0, 1]\<close>, which is non-decreasing, whose first
  element is \<open>0\<close> and whose last element is \<open>1\<close> (in exact arithmetic; the floating-point
  values approximate these).
\<close>

theorem build_envelope_shape:
  assumes "n > 1"
  shows "\<exists>envelope. build_envelope n = Inr envelope
           \<and> length envelope = nat n
           \<and> (\<forall>e \<in> set envelope. 0 \<le> e \<and> e \<le> 1)
           \<and> sorted envelope
           \<and> envelope ! 0 = 0
           \<and> last envelope = 1"
proof -
  let ?m = "nat n"
  let ?t = "\<lambda>i. real i / real (?m - 1)"
  let ?f = "\<lambda>t::real. 3 * t\<^sup>2 - 2 * t ^ 3"
  let ?e = "map (\<lambda>i. ?f (?t i)) [0..<?m]"
  have m: "?m > 1" using assms by simp
  have env: "build_envelope n = Inr ?e"
    using assms by (simp add: build_envelope_def linspace_unit comp_def)
  have t_range: "0 \<le> ?t i \<and> ?t i \<le> 1" if "i < ?m" for i
    using that m by (simp add: divide_le_eq_1)
  have t_mono: "?t i \<le> ?t j" if "i \<le> j" for i j
    using that m by (simp add: divide_right_mono)
  have range: "0 \<le> ?f (?t i) \<and> ?f (?t i) \<le> 1" if "i < ?m" for i
  proof -
    have "?f 0 \<le> ?f (?t i)" using t_range[OF that] by (intro ease_mono) simp_all
    moreover have "?f (?t i) \<le> ?f 1" using t_range[OF that] by (intro ease_mono) simp_all
    ultimately show ?thesis by simp
  qed
  have "\<forall>e \<in> set ?e. 0 \<le> e \<and> e \<le> 1" using range by auto
  moreover have "sorted ?e"
    unfolding sorted_iff_nth_mono
  proof (intro allI impI)
    fix i j assume "i \<le> j" "j < length ?e"
    then have "j < ?m" "i < ?m" by simp_all
    then have "?f (?t i) \<le> ?f (?t j)"
      using t_range[of i] t_range[of j] t_mono[OF \<open>i \<le> j\<close>] by (intro ease_mono) simp_all
    then show "?e ! i \<le> ?e ! j" using \<open>i < ?m\<close> \<open>j < ?m\<close> by simp
  qed
  moreover have "?e ! 0 = 0" using m by simp
  moreover have "last ?e = 1" using m by (simp add: last_map)
  moreover have "length ?e = ?m" by simp
  ultimately show ?thesis using env by blast
qed

theorem build_envelope_shape_witness:
  "\<exists>envelope. build_envelope 3 = Inr envelope
           \<and> length envelope = 3
           \<and> (\<forall>e \<in> set envelope. 0 \<le> e \<and> e \<le> 1)
           \<and> sorted envelope
           \<and> envelope ! 0 = 0
           \<and> last envelope = 1"
  using build_envelope_shape [of 3] by simp

text \<open>
  Claim C8, as the code has it. \<open>build_envelope 1\<close> returns the single-element
  sequence \<open>[0.0]\<close>: \<open>np.linspace(0, 1, 1)\<close> is \<open>[0.0]\<close>, and the cubic maps \<open>0\<close> to
  \<open>0\<close>.
\<close>

theorem build_envelope_single_frame: "build_envelope 1 = Inr [0]"
  by (simp add: build_envelope_def linspace_def)

text \<open>
  Claim C8 as stated gives \<open>[1.0]\<close> for a single frame; the code does not.
\<close>

theorem build_envelope_single_frame_not_one: "build_envelope 1 \<noteq> Inr [1]"
  by (simp add: build_envelope_def linspace_def)

subsection \<open>The send loops\<close>

lemma root_after_core: "core (root_after callback s) = core s"
  by (simp add: root_after_def)

lemma try_send_core:
  "core (fst (try_send cl err_log addr v sn)) =
     (core (fst sn))\<lparr>osc_calls := osc_calls (fst sn) @ [(addr, OscFloat v)]\<rparr>"
  by (cases sn; cases err_log) (simp_all add: Let_def root_after_def)

lemma foldl_try_send_core:
  "core (fst (foldl (\<lambda>sn ch. try_send cl err_log (address ch) v sn) sn cs)) =
     (core (fst sn))\<lparr>osc_calls := osc_calls (fst sn) @ map (\<lambda>ch. (address ch, OscFloat v)) cs\<rparr>"
proof (induction cs arbitrary: sn)
  case Nil
  show ?case by simp
next
  case (Cons c cs)
  let ?sn = "try_send cl err_log (address c) v sn"
  have calls: "osc_calls (fst ?sn) = osc_calls (fst sn) @ [(address c, OscFloat v)]"
    using arg_cong[OF try_send_core, of osc_calls cl err_log "address c" v sn] by simp
  show ?case using Cons[of ?sn] by (simp add: try_send_core calls del: try_send.simps)
qed

lemma count_sends_core: "core (count_sends now sn) = core (fst sn)"
  by (cases sn) (simp add: count_sends_def)

lemma ramp_loop_queue:
  "command_queue (fst (snd (ramp_loop cl pick rd i cs sn))) = command_queue (fst sn)"
proof (induction cs arbitrary: i sn)
  case Nil
  show ?case by simp
next
  case (Cons c cs)
  have q: "command_queue (fst (try_send cl None (address c) v sn)) = command_queue (fst sn)" for v
    using arg_cong[OF try_send_core, of command_queue cl None "address c" v sn] by simp
  show ?case by (simp add: Cons q split: sum.splits del: try_send.simps)
qed

subsection \<open>The command queue\<close>

lemma count_sends_queue: "command_queue (count_sends now sn) = command_queue (fst sn)"
  using arg_cong[OF count_sends_core, of command_queue now sn] by simp

lemma foldl_try_send_queue:
  "command_queue (fst (foldl (\<lambda>sn ch. try_send cl err_log (address ch) v sn) sn cs)) =
     command_queue (fst sn)"
  using arg_cong[OF foldl_try_send_core, of command_queue cl err_log v sn cs] by simp

lemma root_after_queue: "command_queue (root_after callback s) = command_queue s"
  by (simp add: root_after_def)

lemma send_heartbeat_queue: "command_queue (send_heartbeat now s) = command_queue s"
  by (simp add: send_heartbeat_def count_sends_queue foldl_try_send_queue split: option.splits)

lemma stop_all_queue: "command_queue (stop_all now s) = command_queue s"
  by (simp add: stop_all_def Let_def count_sends_queue foldl_try_send_queue split: option.splits)

lemma start_osc_client_queue: "command_queue (start_osc_client now s) = command_queue s"
  by (simp add: start_osc_client_def log_message_def split: option.splits)

lemma start_ramp_queue: "command_queue (start_ramp dir s) = command_queue s"
  by (simp add: start_ramp_def root_after_def Let_def split: option.splits sum.splits)

lemma handle_command_queue: "command_queue (handle_command now cmd s) = command_queue s"
  by (cases cmd)
     (simp_all add: handle_command_def root_after_queue
        start_osc_client_queue start_ramp_queue stop_all_queue)

lemma process_commands_queue: "command_queue (process_commands now s) = tl (command_queue s)"
  by (simp add: process_commands_def handle_command_queue split: list.splits)

lemma check_connection_timeout_queue:
  "command_queue (check_connection_timeout now s) = command_queue s"
  by (simp add: check_connection_timeout_def root_after_def)

lemma frame_sleep_queue: "command_queue (frame_sleep s) = command_queue s"
  by (simp add: frame_sleep_def root_after_def split: option.splits)

lemma send_ramp_frame_queue: "command_queue (send_ramp_frame now s) = command_queue s"
proof -
  have a: "command_queue (fst (snd r)) = command_queue s \<Longrightarrow>
        command_queue (case r of (Some e, s1, success_count) \<Rightarrow> root_after (LogMessage ''Ramp send error'') s1
                      | (None, s1, success_count) \<Rightarrow> s1\<lparr>hold_frame := hold_frame s1 + 1\<rparr>) = command_queue s"
    for r :: "py_error option \<times> gui \<times> nat"
    by (cases r) (auto simp: root_after_def split: option.splits)
  have b: "command_queue (fst (snd r)) = command_queue s \<Longrightarrow>
        command_queue (case r of (Some e, s1, success_count) \<Rightarrow> root_after (LogMessage ''Ramp send error'') s1
                   | (None, s1, success_count) \<Rightarrow>
                       (let s2 = count_sends now (s1, success_count);
                            s3 = (if ramp_frame s2 mod 10 = 0 \<and> length (channels s2) > 0
                                  then root_after (LogMessage ''Frame'') s2 else s2)
                        in s3\<lparr>ramp_frame := ramp_frame s3 + 1\<rparr>)) = command_queue s"
    for r :: "py_error option \<times> gui \<times> nat"
    by (cases r) (auto simp: root_after_def Let_def count_sends_queue split: option.splits)
  show ?thesis
    unfolding send_ramp_frame_def
    by (simp add: a b ramp_loop_queue root_after_queue split: option.splits)
qed

lemma worker_iteration_queue:
  "command_queue (worker_iteration now s) = tl (command_queue s)"
  by (simp add: worker_iteration_def frame_sleep_queue handle_current_mode_def
        send_heartbeat_queue send_ramp_frame_queue check_connection_timeout_queue
        process_commands_queue)

lemma run_callbacks_queue:
  "command_queue (foldl run_callback s callbacks) =
     command_queue s @ replicate (length (filter (\<lambda>c. c = PutStartHeartbeat) callbacks)) START_HEARTBEAT"
proof (induction callbacks arbitrary: s)
  case Nil
  show ?case by simp
next
  case (Cons c callbacks)
  show ?case
    by (cases c) (simp_all add: Cons update_status_def log_message_def replicate_append_same)
qed

lemma tk_run_queue:
  "command_queue (tk_run n s) =
     command_queue s
       @ replicate (length (filter (\<lambda>c. c = PutStartHeartbeat) (take n (after_queue s)))) START_HEARTBEAT"
  by (simp add: tk_run_def run_callbacks_queue)

text \<open>
  Claim C5. An iteration whose queue is empty passes the \<open>get_nowait\<close> block without
  waiting and without change. Every iteration removes the head of the queue, if there
  is one, and nothing else, and the head is the command that \<open>handle_command\<close>
  receives. The only thing that joins the queue during a run is the \<open>START_HEARTBEAT\<close>
  of a completed hold, when the Tk main loop runs the scheduled put. Over any number of
  iterations and for every schedule of the Tk main loop, at most one command per
  iteration is handled, and the commands handled, followed by the commands still queued,
  are the commands that were queued at the start, in their order, followed by the
  \<open>START_HEARTBEAT\<close>s put in the meantime: nothing is merged, dropped or reordered.
\<close>

theorem commands_fifo:
  "process_commands now (s\<lparr>command_queue := []\<rparr>) = s\<lparr>command_queue := []\<rparr>
   \<and> command_queue (worker_iteration now s) = tl (command_queue s)
   \<and> (\<exists>j. command_queue (tk_run n s) = command_queue s @ replicate j START_HEARTBEAT)
   \<and> worker_iteration now s =
       frame_sleep (handle_current_mode now (check_connection_timeout now
         (case command_queue s of
            [] \<Rightarrow> s
          | cmd # rest \<Rightarrow> handle_command now cmd (s\<lparr>command_queue := rest\<rparr>))))
   \<and> length (handled_commands schedule s) \<le> length schedule
   \<and> (\<exists>k. handled_commands schedule s @ command_queue (worker_loop schedule s)
            = command_queue s @ replicate k START_HEARTBEAT)"
proof -
  have len: "length (handled_commands schedule s) \<le> length schedule"
    by (induction schedule s rule: handled_commands.induct) (auto split: list.splits intro: le_SucI)
  have fifo: "\<exists>k. handled_commands schedule s @ command_queue (worker_loop schedule s)
            = command_queue s @ replicate k START_HEARTBEAT"
  proof (induction schedule s rule: handled_commands.induct)
    case (1 s)
    have "handled_commands [] s @ command_queue (worker_loop [] s) = command_queue s @ replicate 0 START_HEARTBEAT"
      by simp
    then show ?case by blast
  next
    case (2 now tk later s)
    show ?case
    proof (cases "running s")
      case False
      then have "handled_commands ((now, tk) # later) s @ command_queue (worker_loop ((now, tk) # later) s)
          = command_queue s @ replicate 0 START_HEARTBEAT" by simp
      then show ?thesis by blast
    next
      case True
      let ?s' = "tk_run tk (worker_iteration now s)"
      obtain k where k: "handled_commands later ?s' @ command_queue (worker_loop later ?s')
            = command_queue ?s' @ replicate k START_HEARTBEAT"
        using 2[OF True] by blast
      have hd_tl: "(case command_queue s of [] \<Rightarrow> [] | cmd # rest \<Rightarrow> [cmd]) @ tl (command_queue s) = command_queue s"
        by (cases "command_queue s") simp_all
      obtain j where j: "command_queue ?s' = tl (command_queue s) @ replicate j START_HEARTBEAT"
        using tk_run_queue[of tk "worker_iteration now s"] worker_iteration_queue[of now s] by simp
      have "handled_commands ((now, tk) # later) s @ command_queue (worker_loop ((now, tk) # later) s)
          = (case command_queue s of [] \<Rightarrow> [] | cmd # rest \<Rightarrow> [cmd]) @
              (handled_commands later ?s' @ command_queue (worker_loop later ?s'))"
        using True by simp
      also have "\<dots> = ((case command_queue s of [] \<Rightarrow> [] | cmd # rest \<Rightarrow> [cmd]) @ tl (command_queue s))
                        @ replicate (j + k) START_HEARTBEAT"
        unfolding k j by (simp add: replicate_add)
      also have "\<dots> = command_queue s @ replicate (j + k) START_HEARTBEAT"
        unfolding hd_tl ..
      finally show ?thesis by blast
    qed
  qed
  show ?thesis
    using worker_iteration_queue[of now s] tk_run_queue[of n s] len fifo
    by (simp add: worker_iteration_def process_commands_def)
qed

text \<open>
  A burst of five commands against five iterations, the Tk main loop running all pending
  callbacks in every sleep: four commands are handled, one per iteration and in the order
  queued; \<open>QUIT\<close> ends the loop, so the fifth stays in the queue.
\<close>

lemma burst_handled_in_order:
  "handled_commands [(0, 9), (0, 9), (0, 9), (0, 9), (0, 9)] burst_gui =
       [START_HEARTBEAT, TURN_LEFT, STOP_ALL, QUIT]
   \<and> command_queue (worker_loop [(0, 9), (0, 9), (0, 9), (0, 9), (0, 9)] burst_gui) = [BASELINE]
   \<and> osc_calls (worker_loop [(0, 9), (0, 9), (0, 9), (0, 9), (0, 9)] burst_gui) =
       [(''/bone/pelvis/yaw'', OscFloat 0), (''/bone/spine_01/yaw'', OscFloat 0),
        (''/bone/pelvis/yaw'', OscFloat 0), (''/bone/spine_01/yaw'', OscFloat 0)]
   \<and> current_mode (worker_loop [(0, 9), (0, 9), (0, 9), (0, 9), (0, 9)] burst_gui) = Stopped"
  by (simp add: burst_gui_def demo_gui_def worker_iteration_def process_commands_def
        handle_command_def start_osc_client_def start_ramp_def stop_all_def build_envelope_def
        linspace_def py_int_def update_status_def log_message_def check_connection_timeout_def
        handle_current_mode_def send_heartbeat_def send_ramp_frame_def py_index_def py_last_def
        count_sends_def frame_sleep_def Let_def upt_conv_Cons root_after_def tk_run_def)

theorem commands_fifo_witness:
  "handled_commands [(0, 9), (0, 9), (0, 9), (0, 9), (0, 9)] burst_gui =
       [START_HEARTBEAT, TURN_LEFT, STOP_ALL, QUIT]
   \<and> command_queue (worker_loop [(0, 9), (0, 9), (0, 9), (0, 9), (0, 9)] burst_gui) = [BASELINE]
   \<and> length (handled_commands [(0, 9), (0, 9), (0, 9), (0, 9), (0, 9)] burst_gui)
        \<le> length [(0, 9), (0, 9), (0, 9), (0, 9), (0 :: real, 9 :: nat)]
   \<and> (\<exists>k. handled_commands [(0, 9), (0, 9), (0, 9), (0, 9), (0, 9)] burst_gui
              @ command_queue (worker_loop [(0, 9), (0, 9), (0, 9), (0, 9), (0, 9)] burst_gui)
            = command_queue burst_gui @ replicate k START_HEARTBEAT)"
proof -
  have run: "handled_commands [(0, 9), (0, 9), (0, 9), (0, 9), (0, 9)] burst_gui =
       [START_HEARTBEAT, TURN_LEFT, STOP_ALL, QUIT]
     \<and> command_queue (worker_loop [(0, 9), (0, 9), (0, 9), (0, 9), (0, 9)] burst_gui) = [BASELINE]"
    using burst_handled_in_order by simp
  show ?thesis
    using commands_fifo [of 0 burst_gui 0 "[(0, 9), (0, 9), (0, 9), (0, 9), (0, 9)]"] run by blast
qed

subsection \<open>Frames and modes\<close>

lemma check_connection_timeout_core: "core (check_connection_timeout now s) = core s"
  by (simp add: check_connection_timeout_def root_after_def)

lemma frame_sleep_core: "core (frame_sleep s) = core s"
  by (simp add: frame_sleep_def root_after_def split: option.splits)

lemma core_fields:
  assumes "core r = x"
  shows "osc_client r = osc_client x" "ramp_data r = ramp_data x" "channels r = channels x"
    "ramp_frame r = ramp_frame x" "hold_frame r = hold_frame x" "hold_frames r = hold_frames x"
    "current_mode r = current_mode x" "command_queue r = command_queue x" "osc_calls r = osc_calls x"
    "running r = running x"
  using arg_cong[OF assms, of osc_client] arg_cong[OF assms, of ramp_data]
    arg_cong[OF assms, of channels] arg_cong[OF assms, of ramp_frame]
    arg_cong[OF assms, of hold_frame] arg_cong[OF assms, of hold_frames]
    arg_cong[OF assms, of current_mode] arg_cong[OF assms, of command_queue]
    arg_cong[OF assms, of osc_calls] arg_cong[OF assms, of running]
  by simp_all

lemma send_heartbeat_calls:
  assumes "osc_client s = Some cl"
  shows "osc_calls (send_heartbeat now s) = osc_calls s @ map (\<lambda>ch. (address ch, OscFloat 0)) (channels s)"
    and "current_mode (send_heartbeat now s) = current_mode s"
proof -
  let ?r = "foldl (\<lambda>sn ch. try_send cl (Some ''OSC send error'') (address ch) 0 sn) (s, 0) (channels s)"
  have c: "core (count_sends now ?r) =
      (core s)\<lparr>osc_calls := osc_calls s @ map (\<lambda>ch. (address ch, OscFloat 0)) (channels s)\<rparr>"
    using foldl_try_send_core[of cl "Some ''OSC send error''" 0 "(s, 0)" "channels s"]
    by (simp only: count_sends_core fst_conv)
  have e: "send_heartbeat now s = (if channels s = [] then s else count_sends now ?r)"
    using assms by (simp add: send_heartbeat_def)
  show "osc_calls (send_heartbeat now s) = osc_calls s @ map (\<lambda>ch. (address ch, OscFloat 0)) (channels s)"
    using core_fields(9)[OF c] e by simp
  show "current_mode (send_heartbeat now s) = current_mode s"
    using core_fields(7)[OF c] e by simp
qed

lemma ramp_loop_mode:
  "current_mode (fst (snd (ramp_loop cl pick rd i cs sn))) = current_mode (fst sn)"
proof (induction cs arbitrary: i sn)
  case Nil
  show ?case by simp
next
  case (Cons c cs)
  have q: "current_mode (fst (try_send cl None (address c) v sn)) = current_mode (fst sn)" for v
    using arg_cong[OF try_send_core, of current_mode cl None "address c" v sn] by simp
  show ?case by (simp add: Cons q split: sum.splits del: try_send.simps)
qed

lemma send_ramp_frame_mode: "current_mode (send_ramp_frame now s) = current_mode s"
proof -
  have m: "current_mode (count_sends now sn) = current_mode (fst sn)" for sn
    using arg_cong[OF count_sends_core, of current_mode now sn] by simp
  have a: "current_mode (fst (snd r)) = current_mode s \<Longrightarrow>
        current_mode (case r of (Some e, s1, success_count) \<Rightarrow> root_after (LogMessage ''Ramp send error'') s1
                      | (None, s1, success_count) \<Rightarrow> s1\<lparr>hold_frame := hold_frame s1 + 1\<rparr>) = current_mode s"
    for r :: "py_error option \<times> gui \<times> nat"
    by (cases r) (auto simp: root_after_def split: option.splits)
  have b: "current_mode (fst (snd r)) = current_mode s \<Longrightarrow>
        current_mode (case r of (Some e, s1, success_count) \<Rightarrow> root_after (LogMessage ''Ramp send error'') s1
                   | (None, s1, success_count) \<Rightarrow>
                       (let s2 = count_sends now (s1, success_count);
                            s3 = (if ramp_frame s2 mod 10 = 0 \<and> length (channels s2) > 0
                                  then root_after (LogMessage ''Frame'') s2 else s2)
                        in s3\<lparr>ramp_frame := ramp_frame s3 + 1\<rparr>)) = current_mode s"
    for r :: "py_error option \<times> gui \<times> nat"
    by (cases r) (auto simp: root_after_def Let_def m split: option.splits)
  show ?thesis
    unfolding send_ramp_frame_def
    by (simp add: a b ramp_loop_mode root_after_def split: option.splits)
qed

lemma send_heartbeat_mode: "current_mode (send_heartbeat now s) = current_mode s"
proof -
  have m: "current_mode (count_sends now sn) = current_mode (fst sn)" for sn
    using arg_cong[OF count_sends_core, of current_mode now sn] by simp
  have f: "current_mode (fst (foldl (\<lambda>sn ch. try_send cl err_log (address ch) v sn) sn cs)) =
     current_mode (fst sn)" for cl err_log v sn and cs :: "gui_channel list"
    using arg_cong[OF foldl_try_send_core, of current_mode cl err_log v sn cs] by simp
  show ?thesis by (simp add: send_heartbeat_def m f split: option.splits)
qed

lemma handle_current_mode_mode: "current_mode (handle_current_mode now s) = current_mode s"
  by (simp add: handle_current_mode_def send_heartbeat_mode send_ramp_frame_mode)

lemma handle_current_mode_idle:
  assumes "current_mode s = Idle \<or> current_mode s = Stopped"
  shows "handle_current_mode now s = s"
  using assms by (auto simp: handle_current_mode_def)

lemma stop_all_mode: "current_mode (stop_all now s) = current_mode s"
proof -
  have m: "current_mode (count_sends now sn) = current_mode (fst sn)" for sn
    using arg_cong[OF count_sends_core, of current_mode now sn] by simp
  have f: "current_mode (fst (foldl (\<lambda>sn ch. try_send cl err_log (address ch) v sn) sn cs)) =
     current_mode (fst sn)" for cl err_log v sn and cs :: "gui_channel list"
    using arg_cong[OF foldl_try_send_core, of current_mode cl err_log v sn cs] by simp
  show ?thesis by (simp add: stop_all_def Let_def m f split: option.splits)
qed

lemma handle_command_mode: "current_mode (handle_command now cmd s) = current_mode s"
  by (cases cmd)
     (simp_all add: handle_command_def root_after_def stop_all_mode start_osc_client_def
        start_ramp_def log_message_def Let_def split: option.splits sum.splits)

lemma process_commands_mode: "current_mode (process_commands now s) = current_mode s"
  by (simp add: process_commands_def handle_command_mode split: list.splits)

lemma worker_iteration_mode: "current_mode (worker_iteration now s) = current_mode s"
  using core_fields(7)[OF check_connection_timeout_core[of now "process_commands now s"]]
    core_fields(7)[OF frame_sleep_core]
  by (simp add: worker_iteration_def handle_current_mode_mode process_commands_mode)

lemma process_commands_quiet:
  assumes "\<nexists>rest. command_queue s = STOP_ALL # rest"
  shows "osc_calls (process_commands now s) = osc_calls s"
proof (cases "command_queue s")
  case Nil
  then show ?thesis by (simp add: process_commands_def)
next
  case (Cons cmd rest)
  then have "cmd \<noteq> STOP_ALL" using assms by auto
  then show ?thesis using Cons
    by (cases cmd)
       (simp_all add: process_commands_def handle_command_def root_after_def start_osc_client_def
          start_ramp_def log_message_def Let_def split: option.splits sum.splits)
qed

text \<open>
  Claim C2, as the code has it. The mode dispatch of an iteration does nothing when the
  mode is \<open>Idle\<close> or \<open>Stopped\<close>. When the mode is \<open>Heartbeat\<close> and an OSC client
  exists, it calls \<open>send_message\<close> with \<open>0.0\<close> exactly once for every configured
  channel, in channel order. For a whole iteration: if it sends anything, then the mode
  is neither \<open>Idle\<close> nor \<open>Stopped\<close>, or the command it handled is \<open>STOP_ALL\<close> (whose
  handling sends one frame of zeros). The worker itself never changes the mode (lemma
  \<open>worker_iteration_mode\<close>), so the mode after the iteration is the mode on which it
  dispatched.
\<close>

theorem frames_only_when_streaming:
  "(current_mode s1 = Idle \<or> current_mode s1 = Stopped \<longrightarrow> handle_current_mode now s1 = s1)
   \<and> (current_mode s2 = Heartbeat \<and> osc_client s2 = Some cl \<longrightarrow>
        osc_calls (handle_current_mode now s2) =
          osc_calls s2 @ map (\<lambda>ch. (address ch, OscFloat 0)) (channels s2))
   \<and> (osc_calls (worker_iteration now s3) \<noteq> osc_calls s3 \<longrightarrow>
        (current_mode (worker_iteration now s3) \<noteq> Idle
           \<and> current_mode (worker_iteration now s3) \<noteq> Stopped)
        \<or> (\<exists>rest. command_queue s3 = STOP_ALL # rest))"
proof -
  have a: "current_mode s1 = Idle \<or> current_mode s1 = Stopped \<longrightarrow> handle_current_mode now s1 = s1"
    using handle_current_mode_idle by blast
  have b: "current_mode s2 = Heartbeat \<and> osc_client s2 = Some cl \<longrightarrow>
        osc_calls (handle_current_mode now s2) =
          osc_calls s2 @ map (\<lambda>ch. (address ch, OscFloat 0)) (channels s2)"
    using send_heartbeat_calls(1)[of s2 cl now] by (simp add: handle_current_mode_def)
  have c: "osc_calls (worker_iteration now s3) = osc_calls s3"
    if idle: "current_mode (worker_iteration now s3) = Idle \<or> current_mode (worker_iteration now s3) = Stopped"
      and nostop: "\<nexists>rest. command_queue s3 = STOP_ALL # rest"
  proof -
    let ?p = "process_commands now s3"
    let ?c = "check_connection_timeout now ?p"
    note fc = core_fields[OF check_connection_timeout_core[of now ?p]]
    note fs = core_fields[OF frame_sleep_core[of "handle_current_mode now ?c"]]
    have pm: "current_mode ?p = Idle \<or> current_mode ?p = Stopped"
      using idle by (simp add: worker_iteration_mode process_commands_mode)
    then have "handle_current_mode now ?c = ?c"
      using fc(7) by (intro handle_current_mode_idle) simp
    then have "osc_calls (worker_iteration now s3) = osc_calls ?p"
      using fs(9) fc(9) by (simp add: worker_iteration_def)
    then show ?thesis using process_commands_quiet[OF nostop] by simp
  qed
  show ?thesis using a b c by blast
qed

theorem frames_only_when_streaming_witness:
  "handle_current_mode 0 demo_gui = demo_gui
   \<and> osc_calls (handle_current_mode 0 heartbeat_gui) =
        [(''/bone/pelvis/yaw'', OscFloat 0), (''/bone/spine_01/yaw'', OscFloat 0)]
   \<and> osc_calls (worker_iteration 0 heartbeat_gui) \<noteq> osc_calls heartbeat_gui
   \<and> current_mode (worker_iteration 0 heartbeat_gui) \<noteq> Idle
   \<and> current_mode (worker_iteration 0 heartbeat_gui) \<noteq> Stopped"
proof -
  have calls: "osc_calls (worker_iteration 0 heartbeat_gui) \<noteq> osc_calls heartbeat_gui"
    by (simp add: heartbeat_gui_def demo_gui_def worker_iteration_def process_commands_def
          check_connection_timeout_def handle_current_mode_def send_heartbeat_def
          count_sends_def frame_sleep_def Let_def)
  show ?thesis
    using frames_only_when_streaming [of demo_gui 0 heartbeat_gui "\<lambda>addr v. True" heartbeat_gui] calls
    by (simp add: heartbeat_gui_def demo_gui_def)
qed

text \<open>
  Claim C2 as stated has the zeros sent whenever the mode is \<open>Heartbeat\<close>. When the
  port field is not a number, \<open>start_osc_client\<close> fails, the mode change to
  \<open>Heartbeat\<close> is scheduled all the same and the Tk main loop runs it, and in the next
  iteration the guard of \<open>send_heartbeat\<close> returns before anything is sent.
\<close>

theorem heartbeat_without_client_sends_nothing:
  "current_mode (worker_loop [(0, 9)] no_port_gui) = Heartbeat
   \<and> length (channels (worker_loop [(0, 9)] no_port_gui)) = 2
   \<and> osc_client (worker_loop [(0, 9)] no_port_gui) = None
   \<and> osc_calls (worker_loop [(0, 9), (1, 9)] no_port_gui) = []
   \<and> current_mode (worker_loop [(0, 9), (1, 9)] no_port_gui) = Heartbeat"
  by (simp add: no_port_gui_def demo_gui_def worker_iteration_def process_commands_def
        handle_command_def start_osc_client_def update_status_def log_message_def
        check_connection_timeout_def handle_current_mode_def send_heartbeat_def frame_sleep_def
        root_after_def tk_run_def)

subsection \<open>Ramp, hold and return to the heartbeat\<close>

lemma try_send_quiet_after:
  "after_queue (fst (try_send cl None addr v sn)) = after_queue (fst sn)"
  by (cases sn) (simp add: Let_def)

lemma ramp_loop_ok:
  assumes "i + length cs \<le> length rd" and "\<forall>row \<in> set rd. pick row = Inr (g row)"
  shows "fst (ramp_loop cl pick rd i cs sn) = None
       \<and> core (fst (snd (ramp_loop cl pick rd i cs sn))) =
           (core (fst sn))\<lparr>osc_calls := osc_calls (fst sn) @
              map2 (\<lambda>ch row. (address ch, OscFloat (g row))) cs (drop i rd)\<rparr>
       \<and> after_queue (fst (snd (ramp_loop cl pick rd i cs sn))) = after_queue (fst sn)"
  using assms
proof (induction cs arbitrary: i sn)
  case Nil
  show ?case by simp
next
  case (Cons c cs)
  then have i: "i < length rd" by auto
  then have pick: "pick (rd ! i) = Inr (g (rd ! i))" using Cons.prems(2) by simp
  let ?sn = "try_send cl None (address c) (g (rd ! i)) sn"
  have calls: "osc_calls (fst ?sn) = osc_calls (fst sn) @ [(address c, OscFloat (g (rd ! i)))]"
    using arg_cong[OF try_send_core, of osc_calls cl None "address c" "g (rd ! i)" sn] by simp
  have step: "ramp_loop cl pick rd i (c # cs) sn = ramp_loop cl pick rd (Suc i) cs ?sn"
    using i pick by (simp del: try_send.simps)
  have d: "drop i rd = rd ! i # drop (Suc i) rd"
    using i by (simp add: Cons_nth_drop_Suc)
  have IH: "fst (ramp_loop cl pick rd (Suc i) cs ?sn) = None
       \<and> core (fst (snd (ramp_loop cl pick rd (Suc i) cs ?sn))) =
           (core (fst ?sn))\<lparr>osc_calls := osc_calls (fst ?sn) @
              map2 (\<lambda>ch row. (address ch, OscFloat (g row))) cs (drop (Suc i) rd)\<rparr>
       \<and> after_queue (fst (snd (ramp_loop cl pick rd (Suc i) cs ?sn))) = after_queue (fst ?sn)"
    using Cons.prems by (intro Cons.IH) simp_all
  show ?case unfolding step d using IH
    by (simp add: try_send_core calls try_send_quiet_after del: try_send.simps)
qed

lemma core_update:
  assumes "core r = x"
  shows "core (r\<lparr>hold_frame := h\<rparr>) = x\<lparr>hold_frame := h\<rparr>"
    and "core (r\<lparr>ramp_frame := k\<rparr>) = x\<lparr>ramp_frame := k\<rparr>"
proof -
  have "core (r\<lparr>hold_frame := h\<rparr>) = (core r)\<lparr>hold_frame := h\<rparr>" by simp
  also have "\<dots> = x\<lparr>hold_frame := h\<rparr>"
    by (rule arg_cong[where f="\<lambda>x. x\<lparr>hold_frame := h\<rparr>"]) (rule assms)
  finally show "core (r\<lparr>hold_frame := h\<rparr>) = x\<lparr>hold_frame := h\<rparr>" .
  have "core (r\<lparr>ramp_frame := k\<rparr>) = (core r)\<lparr>ramp_frame := k\<rparr>" by simp
  also have "\<dots> = x\<lparr>ramp_frame := k\<rparr>"
    by (rule arg_cong[where f="\<lambda>x. x\<lparr>ramp_frame := k\<rparr>"]) (rule assms)
  finally show "core (r\<lparr>ramp_frame := k\<rparr>) = x\<lparr>ramp_frame := k\<rparr>" .
qed

lemma send_ramp_frame_hold:
  assumes "osc_client s = Some cl" and "ramp_data s = Some rd" and "rd \<noteq> []"
    and "length (channels s) \<le> length rd" and "\<forall>row \<in> set rd. row \<noteq> []"
    and "length (rd ! 0) \<le> ramp_frame s" and "hold_frame s < hold_frames s"
  shows "core (send_ramp_frame now s) =
           (core s)\<lparr>osc_calls := osc_calls s @
                        map2 (\<lambda>ch row. (address ch, OscFloat (last row))) (channels s) rd,
                    hold_frame := hold_frame s + 1\<rparr>"
    and "after_queue (send_ramp_frame now s) = after_queue s"
proof -
  let ?r = "ramp_loop cl py_last rd 0 (channels s) (s, 0)"
  have pick: "\<forall>row \<in> set rd. py_last row = Inr (last row)"
    using assms(5) by (simp add: py_last_def)
  have r: "fst ?r = None"
    and c: "core (fst (snd ?r)) = (core s)\<lparr>osc_calls := osc_calls s @
              map2 (\<lambda>ch row. (address ch, OscFloat (last row))) (channels s) rd\<rparr>"
    and a: "after_queue (fst (snd ?r)) = after_queue s"
    using ramp_loop_ok[of 0 "channels s" rd py_last last cl "(s, 0)"] assms(4) pick by simp_all
  obtain s1 n where s1: "?r = (None, s1, n)" using r by (cases ?r) auto
  have c1: "core s1 = (core s)\<lparr>osc_calls := osc_calls s @
              map2 (\<lambda>ch row. (address ch, OscFloat (last row))) (channels s) rd\<rparr>"
    using c s1 by simp
  have h: "hold_frame s1 = hold_frame s" using core_fields(5)[OF c1] by simp
  have e: "send_ramp_frame now s = s1\<lparr>hold_frame := hold_frame s1 + 1\<rparr>"
    using assms s1 by (simp add: send_ramp_frame_def)
  show "core (send_ramp_frame now s) =
           (core s)\<lparr>osc_calls := osc_calls s @
                        map2 (\<lambda>ch row. (address ch, OscFloat (last row))) (channels s) rd,
                    hold_frame := hold_frame s + 1\<rparr>"
    using core_update(1)[OF c1, of "hold_frame s1 + 1"] h e by simp
  show "after_queue (send_ramp_frame now s) = after_queue s"
    using a s1 e by simp
qed

lemma send_ramp_frame_complete:
  assumes "osc_client s = Some cl" and "ramp_data s = Some rd" and "rd \<noteq> []"
    and "length (rd ! 0) \<le> ramp_frame s" and "\<not> hold_frame s < hold_frames s"
  shows "send_ramp_frame now s = root_after PutStartHeartbeat s"
  using assms by (simp add: send_ramp_frame_def)

lemma send_ramp_frame_ramp:
  assumes "osc_client s = Some cl" and "ramp_data s = Some rd" and "rd \<noteq> []"
    and "length (channels s) \<le> length rd" and "\<forall>row \<in> set rd. length row = m"
    and "ramp_frame s < m"
  shows "core (send_ramp_frame now s) =
           (core s)\<lparr>osc_calls := osc_calls (send_ramp_frame now s),
                    ramp_frame := ramp_frame s + 1\<rparr>"
proof -
  let ?r = "ramp_loop cl (py_index (ramp_frame s)) rd 0 (channels s) (s, 0)"
  let ?calls = "osc_calls s @
              map2 (\<lambda>ch row. (address ch, OscFloat (row ! ramp_frame s))) (channels s) rd"
  have pick: "\<forall>row \<in> set rd. py_index (ramp_frame s) row = Inr (row ! ramp_frame s)"
    using assms(5,6) by (simp add: py_index_def)
  have r: "fst ?r = None" and c: "core (fst (snd ?r)) = (core s)\<lparr>osc_calls := ?calls\<rparr>"
    using ramp_loop_ok[of 0 "channels s" rd "py_index (ramp_frame s)" "\<lambda>row. row ! ramp_frame s" cl "(s, 0)"]
      assms(4) pick by simp_all
  obtain s1 n where s1: "?r = (None, s1, n)" using r by (cases ?r) auto
  have c1: "core s1 = (core s)\<lparr>osc_calls := ?calls\<rparr>" using c s1 by simp
  let ?s2 = "count_sends now (s1, n)"
  let ?s3 = "if ramp_frame ?s2 mod 10 = 0 \<and> length (channels ?s2) > 0
             then root_after (LogMessage ''Frame'') ?s2 else ?s2"
  have c3: "core ?s3 = (core s)\<lparr>osc_calls := ?calls\<rparr>"
    using c1 by (simp only: root_after_core count_sends_core fst_conv if_distrib[of core] if_cancel)
  have rf: "ramp_frame ?s3 = ramp_frame s" using core_fields(4)[OF c3] by simp
  have "rd ! 0 \<in> set rd" using assms(3) by simp
  then have len0: "length (rd ! 0) = m" using assms(5) by blast
  have e: "send_ramp_frame now s = ?s3\<lparr>ramp_frame := ramp_frame ?s3 + 1\<rparr>"
    using assms(1-3,6) s1 len0 by (simp add: send_ramp_frame_def Let_def)
  have ce: "core (send_ramp_frame now s) = (core s)\<lparr>osc_calls := ?calls, ramp_frame := ramp_frame s + 1\<rparr>"
    unfolding e using core_update(2)[OF c3, of "ramp_frame ?s3 + 1"] rf by simp
  have "osc_calls (send_ramp_frame now s) = ?calls"
    using core_fields(9)[OF ce] by simp
  then show ?thesis using ce by simp
qed


lemma ramp_phase:
  assumes "osc_client s = Some cl" and "ramp_data s = Some rd" and "rd \<noteq> []"
    and "length (channels s) \<le> length rd" and "\<forall>row \<in> set rd. length row = m"
    and "ramp_frame s + length clock \<le> m"
  shows "core (fold send_ramp_frame clock s) =
           (core s)\<lparr>osc_calls := osc_calls (fold send_ramp_frame clock s),
                    ramp_frame := ramp_frame s + length clock\<rparr>"
  using assms
proof (induction clock arbitrary: s)
  case Nil
  show ?case by simp
next
  case (Cons now later)
  let ?s' = "send_ramp_frame now s"
  have lt: "ramp_frame s < m" using Cons.prems(6) by simp
  have c: "core ?s' = (core s)\<lparr>osc_calls := osc_calls ?s', ramp_frame := ramp_frame s + 1\<rparr>"
    using Cons.prems(1-5) lt by (rule send_ramp_frame_ramp)
  note f = core_fields[OF c]
  have f': "osc_client ?s' = osc_client s" "ramp_data ?s' = ramp_data s" "channels ?s' = channels s"
    "ramp_frame ?s' = ramp_frame s + 1"
    using f by simp_all
  have "core (fold send_ramp_frame later ?s') =
           (core ?s')\<lparr>osc_calls := osc_calls (fold send_ramp_frame later ?s'),
                    ramp_frame := ramp_frame ?s' + length later\<rparr>"
    using Cons.prems f' by (intro Cons.IH) simp_all
  then have "core (fold send_ramp_frame later ?s') =
           (core s)\<lparr>osc_calls := osc_calls (fold send_ramp_frame later ?s'),
                    ramp_frame := ramp_frame s + length (now # later)\<rparr>"
    unfolding c f' by (simp add: add.assoc)
  then show ?case by simp
qed

lemma hold_phase:
  assumes "osc_client s = Some cl" and "ramp_data s = Some rd" and "rd \<noteq> []"
    and "length (channels s) \<le> length rd" and "\<forall>row \<in> set rd. row \<noteq> []"
    and "length (rd ! 0) \<le> ramp_frame s"
  shows "core (fold send_ramp_frame clock s) =
           (core s)\<lparr>osc_calls := osc_calls s @
                        concat (replicate (min (length clock) (nat (hold_frames s - hold_frame s)))
                          (map2 (\<lambda>ch row. (address ch, OscFloat (last row))) (channels s) rd)),
                    hold_frame := hold_frame s
                        + int (min (length clock) (nat (hold_frames s - hold_frame s)))\<rparr>
       \<and> after_queue (fold send_ramp_frame clock s) =
           after_queue s
             @ replicate (length clock - nat (hold_frames s - hold_frame s)) PutStartHeartbeat"
  using assms
proof (induction clock arbitrary: s)
  case Nil
  show ?case by simp
next
  case (Cons now later)
  let ?F = "map2 (\<lambda>ch row. (address ch, OscFloat (last row))) (channels s) rd"
  let ?s' = "send_ramp_frame now s"
  let ?k = "nat (hold_frames s - hold_frame s)"
  show ?case
  proof (cases "hold_frame s < hold_frames s")
    case True
    have c: "core ?s' = (core s)\<lparr>osc_calls := osc_calls s @ ?F, hold_frame := hold_frame s + 1\<rparr>"
      and a: "after_queue ?s' = after_queue s"
      using Cons.prems True by (rule send_ramp_frame_hold)+
    note f = core_fields[OF c]
    have f': "osc_client ?s' = osc_client s" "ramp_data ?s' = ramp_data s" "channels ?s' = channels s"
      "ramp_frame ?s' = ramp_frame s" "hold_frame ?s' = hold_frame s + 1"
      "hold_frames ?s' = hold_frames s" "osc_calls ?s' = osc_calls s @ ?F"
      using f by simp_all
    have k: "nat (hold_frames s - (hold_frame s + 1)) = ?k - 1" "0 < ?k"
      using True by simp_all
    have mn: "Suc (min (length later) (?k - 1)) = min (length (now # later)) ?k"
      using k(2) by simp
    have sb: "length later - (?k - 1) = length (now # later) - ?k"
      using k(2) by simp
    have IH: "core (fold send_ramp_frame later ?s') =
           (core ?s')\<lparr>osc_calls := osc_calls ?s' @
                        concat (replicate (min (length later) (nat (hold_frames ?s' - hold_frame ?s')))
                          (map2 (\<lambda>ch row. (address ch, OscFloat (last row))) (channels ?s') rd)),
                    hold_frame := hold_frame ?s'
                        + int (min (length later) (nat (hold_frames ?s' - hold_frame ?s')))\<rparr>
       \<and> after_queue (fold send_ramp_frame later ?s') =
           after_queue ?s'
             @ replicate (length later - nat (hold_frames ?s' - hold_frame ?s')) PutStartHeartbeat"
      using Cons.prems f' by (intro Cons.IH) simp_all
    have "core (fold send_ramp_frame later ?s') =
           (core s)\<lparr>osc_calls := osc_calls s @ concat (replicate (Suc (min (length later) (?k - 1))) ?F),
                    hold_frame := hold_frame s + int (Suc (min (length later) (?k - 1)))\<rparr>"
      using IH unfolding c f' by (simp add: add.assoc k(1))
    moreover have "after_queue (fold send_ramp_frame later ?s') =
           after_queue s @ replicate (length later - (?k - 1)) PutStartHeartbeat"
      using IH unfolding a f' by (simp add: k(1))
    ultimately show ?thesis unfolding mn sb by simp
  next
    case False
    then have k: "?k = 0" by simp
    have e: "?s' = root_after PutStartHeartbeat s"
      using Cons.prems(1,2,3,6) False by (rule send_ramp_frame_complete)
    have c: "core ?s' = core s" unfolding e by (rule root_after_core)
    have a: "after_queue ?s' = after_queue s @ [PutStartHeartbeat]"
      unfolding e by (simp add: root_after_def)
    note f = core_fields[OF c]
    have f': "osc_client ?s' = osc_client s" "ramp_data ?s' = ramp_data s" "channels ?s' = channels s"
      "ramp_frame ?s' = ramp_frame s" "hold_frame ?s' = hold_frame s"
      "hold_frames ?s' = hold_frames s" "osc_calls ?s' = osc_calls s"
      using f by simp_all
    have IH: "core (fold send_ramp_frame later ?s') =
           (core ?s')\<lparr>osc_calls := osc_calls ?s' @
                        concat (replicate (min (length later) (nat (hold_frames ?s' - hold_frame ?s')))
                          (map2 (\<lambda>ch row. (address ch, OscFloat (last row))) (channels ?s') rd)),
                    hold_frame := hold_frame ?s'
                        + int (min (length later) (nat (hold_frames ?s' - hold_frame ?s')))\<rparr>
       \<and> after_queue (fold send_ramp_frame later ?s') =
           after_queue ?s'
             @ replicate (length later - nat (hold_frames ?s' - hold_frame ?s')) PutStartHeartbeat"
      using Cons.prems f' by (intro Cons.IH) simp_all
    have "core (fold send_ramp_frame later ?s') = core s"
      using IH unfolding c f' k by simp
    moreover have "after_queue (fold send_ramp_frame later ?s') =
           after_queue s @ replicate (Suc (length later)) PutStartHeartbeat"
      using IH unfolding a f' k by (simp add: replicate_append_same)
    ultimately show ?thesis unfolding k by simp
  qed
qed

lemma start_ramp_state:
  assumes "osc_client s = Some cl" and "channels s \<noteq> []"
    and "duration_var s = Some d" and "fps_var s = Some f" and "hold_var s = Some h"
    and "build_envelope (py_int (d * real_of_int f)) = Inr envelope"
  shows "start_ramp dir s =
           s\<lparr>ramp_data := Some (map (\<lambda>ch. map (\<lambda>e. (if dir = ''right'' then amp_right ch
                          else if dir = ''left'' then amp_left ch else 0) * e) envelope) (channels s)),
             ramp_frame := 0, hold_frames := py_int (h * real_of_int f), hold_frame := 0\<rparr>"
  using assms by (simp add: start_ramp_def Let_def)

lemma tk_run_all_queue:
  "command_queue (tk_run (length (after_queue s)) s) =
     command_queue s
       @ replicate (length (filter (\<lambda>c. c = PutStartHeartbeat) (after_queue s))) START_HEARTBEAT"
  by (simp add: tk_run_queue)

lemma try_send_after:
  "\<exists>extra. after_queue (fst (try_send cl err_log addr v sn)) = after_queue (fst sn) @ extra
      \<and> (\<forall>c \<in> set extra. \<forall>status. c \<noteq> UpdateStatus status)"
  by (cases sn; cases err_log) (simp_all add: Let_def root_after_def)

lemma foldl_try_send_after:
  "\<exists>extra. after_queue (fst (foldl (\<lambda>sn ch. try_send cl err_log (address ch) v sn) sn cs)) =
              after_queue (fst sn) @ extra
      \<and> (\<forall>c \<in> set extra. \<forall>status. c \<noteq> UpdateStatus status)"
proof (induction cs arbitrary: sn)
  case Nil
  show ?case by simp
next
  case (Cons c cs)
  let ?sn = "try_send cl err_log (address c) v sn"
  obtain e1 where e1: "after_queue (fst ?sn) = after_queue (fst sn) @ e1"
      "\<forall>c \<in> set e1. \<forall>status. c \<noteq> UpdateStatus status"
    using try_send_after by blast
  obtain e2 where e2: "after_queue (fst (foldl (\<lambda>sn ch. try_send cl err_log (address ch) v sn) ?sn cs)) =
              after_queue (fst ?sn) @ e2"
      "\<forall>c \<in> set e2. \<forall>status. c \<noteq> UpdateStatus status"
    using Cons[of ?sn] by blast
  have "after_queue (fst (foldl (\<lambda>sn ch. try_send cl err_log (address ch) v sn) sn (c # cs))) =
      after_queue (fst sn) @ (e1 @ e2)"
    using e1(1) e2(1) by simp
  moreover have "\<forall>c \<in> set (e1 @ e2). \<forall>status. c \<noteq> UpdateStatus status"
    using e1(2) e2(2) by auto
  ultimately show ?case by blast
qed

lemma count_sends_after: "after_queue (count_sends now sn) = after_queue (fst sn)"
  by (cases sn) (simp add: count_sends_def)

lemma send_heartbeat_after:
  "\<exists>extra. after_queue (send_heartbeat now s) = after_queue s @ extra
      \<and> (\<forall>c \<in> set extra. \<forall>status. c \<noteq> UpdateStatus status)"
proof (cases "osc_client s")
  case None
  then have "after_queue (send_heartbeat now s) = after_queue s @ []"
    by (simp add: send_heartbeat_def)
  then show ?thesis by fastforce
next
  case (Some cl)
  show ?thesis
  proof (cases "channels s = []")
    case True
    then have "after_queue (send_heartbeat now s) = after_queue s @ []"
      using Some by (simp add: send_heartbeat_def)
    then show ?thesis by fastforce
  next
    case False
    then show ?thesis
      using Some foldl_try_send_after[of cl "Some ''OSC send error''" 0 "(s, 0)" "channels s"]
      by (simp add: send_heartbeat_def count_sends_after)
  qed
qed

lemma ramp_loop_after:
  "after_queue (fst (snd (ramp_loop cl pick rd i cs sn))) = after_queue (fst sn)"
proof (induction cs arbitrary: i sn)
  case Nil
  show ?case by simp
next
  case (Cons c cs)
  show ?case by (simp add: Cons try_send_quiet_after split: sum.splits del: try_send.simps)
qed

lemma send_ramp_frame_after:
  "\<exists>extra. after_queue (send_ramp_frame now s) = after_queue s @ extra
      \<and> (\<forall>c \<in> set extra. \<forall>status. c \<noteq> UpdateStatus status)"
proof -
  have a: "after_queue (fst (snd r)) = after_queue s \<Longrightarrow>
        \<exists>extra. after_queue (case r of (Some e, s1, success_count) \<Rightarrow> root_after (LogMessage ''Ramp send error'') s1
                      | (None, s1, success_count) \<Rightarrow> s1\<lparr>hold_frame := hold_frame s1 + 1\<rparr>) = after_queue s @ extra
           \<and> (\<forall>c \<in> set extra. \<forall>status. c \<noteq> UpdateStatus status)"
    for r :: "py_error option \<times> gui \<times> nat"
    by (cases r) (auto simp: root_after_def split: option.splits)
  have b: "after_queue (fst (snd r)) = after_queue s \<Longrightarrow>
        \<exists>extra. after_queue (case r of (Some e, s1, success_count) \<Rightarrow> root_after (LogMessage ''Ramp send error'') s1
                   | (None, s1, success_count) \<Rightarrow>
                       (let s2 = count_sends now (s1, success_count);
                            s3 = (if ramp_frame s2 mod 10 = 0 \<and> length (channels s2) > 0
                                  then root_after (LogMessage ''Frame'') s2 else s2)
                        in s3\<lparr>ramp_frame := ramp_frame s3 + 1\<rparr>)) = after_queue s @ extra
           \<and> (\<forall>c \<in> set extra. \<forall>status. c \<noteq> UpdateStatus status)"
    for r :: "py_error option \<times> gui \<times> nat"
    by (cases r) (auto simp: root_after_def Let_def count_sends_after split: option.splits)
  have n: "\<exists>extra. after_queue s = after_queue s @ extra
           \<and> (\<forall>c \<in> set extra. \<forall>status. c \<noteq> UpdateStatus status)"
    by (intro exI[of _ "[]"]) simp
  have p: "\<exists>extra. after_queue (root_after PutStartHeartbeat s) = after_queue s @ extra
           \<and> (\<forall>c \<in> set extra. \<forall>status. c \<noteq> UpdateStatus status)"
    by (intro exI[of _ "[PutStartHeartbeat]"]) (simp add: root_after_def)
  show ?thesis
    unfolding send_ramp_frame_def
    using n p by (auto simp: ramp_loop_after intro!: a b split: option.splits)
qed

lemma run_callbacks_last_status:
  assumes "\<forall>c \<in> set extra. \<forall>status. c \<noteq> UpdateStatus status"
  shows "current_mode (foldl run_callback s (before @ UpdateStatus m # extra)) = m"
proof -
  have keep: "current_mode (foldl run_callback t extra) = current_mode t" for t
    using assms
  proof (induction extra arbitrary: t)
    case Nil
    show ?case by simp
  next
    case (Cons c extra)
    then show ?case by (cases c) (simp_all add: log_message_def)
  qed
  show ?thesis by (simp add: keep update_status_def)
qed

lemma worker_handles_start_heartbeat:
  assumes "running s" and "command_queue s = START_HEARTBEAT # rest"
    and "length (after_queue (worker_iteration now s)) \<le> tk"
  shows "current_mode (worker_loop [(now, tk)] s) = Heartbeat"
proof -
  let ?p = "process_commands now s"
  let ?c = "check_connection_timeout now ?p"
  let ?d = "handle_current_mode now ?c"
  have p: "after_queue ?p =
      after_queue s @ UpdateStatus Heartbeat # [LogMessage ''Started heartbeat streaming'']"
    using assms(2)
    by (simp add: process_commands_def handle_command_def root_after_def start_osc_client_def
          log_message_def split: option.splits)
  obtain e1 where e1: "after_queue ?c = after_queue ?p @ e1"
      "\<forall>c \<in> set e1. \<forall>status. c \<noteq> UpdateStatus status"
  proof
    show "after_queue ?c = after_queue ?p @
        (if connection_active ?p \<and> last_send_time ?p > 0 \<and> now - last_send_time ?p > connection_timeout ?p
         then [LogMessage ''Connection timeout - no recent OSC activity''] else [])"
      by (simp add: check_connection_timeout_def root_after_def)
    show "\<forall>c \<in> set (if connection_active ?p \<and> last_send_time ?p > 0 \<and> now - last_send_time ?p > connection_timeout ?p
         then [LogMessage ''Connection timeout - no recent OSC activity''] else []). \<forall>status. c \<noteq> UpdateStatus status"
      by simp
  qed
  obtain e2 where e2: "after_queue ?d = after_queue ?c @ e2"
      "\<forall>c \<in> set e2. \<forall>status. c \<noteq> UpdateStatus status"
  proof -
    have "\<exists>extra. after_queue ?d = after_queue ?c @ extra
        \<and> (\<forall>c \<in> set extra. \<forall>status. c \<noteq> UpdateStatus status)"
      using send_heartbeat_after[of now ?c] send_ramp_frame_after[of now ?c]
      by (auto simp: handle_current_mode_def)
    then show ?thesis using that by blast
  qed
  obtain e3 where e3: "after_queue (frame_sleep ?d) = after_queue ?d @ e3"
      "\<forall>c \<in> set e3. \<forall>status. c \<noteq> UpdateStatus status"
  proof
    show "after_queue (frame_sleep ?d) = after_queue ?d @
        (case fps_var ?d of None \<Rightarrow> [LogMessage ''Worker error'']
         | Some fps \<Rightarrow> if fps > 0 then [] else [LogMessage ''Worker error''])"
      by (simp add: frame_sleep_def root_after_def split: option.splits)
    show "\<forall>c \<in> set (case fps_var ?d of None \<Rightarrow> [LogMessage ''Worker error'']
         | Some fps \<Rightarrow> if fps > 0 then [] else [LogMessage ''Worker error'']). \<forall>status. c \<noteq> UpdateStatus status"
      by (simp split: option.splits)
  qed
  let ?w = "worker_iteration now s"
  have w: "after_queue ?w = after_queue s @ UpdateStatus Heartbeat
        # (LogMessage ''Started heartbeat streaming'' # e1 @ e2 @ e3)"
    using p e1(1) e2(1) e3(1) by (simp add: worker_iteration_def)
  have ns: "\<forall>c \<in> set (LogMessage ''Started heartbeat streaming'' # e1 @ e2 @ e3).
      \<forall>status. c \<noteq> UpdateStatus status"
    using e1(2) e2(2) e3(2) by auto
  have "take tk (after_queue ?w) = after_queue ?w" using assms(3) by simp
  then have "current_mode (tk_run tk ?w) = Heartbeat"
    unfolding tk_run_def w using run_callbacks_last_status[OF ns] by (simp add: w)
  then show ?thesis using assms(1) by simp
qed

lemma fold_send_ramp_frame_queue:
  "command_queue (fold send_ramp_frame clock s) = command_queue s"
  by (induction clock arbitrary: s) (simp_all add: send_ramp_frame_queue)

text \<open>
  Claim C4, as the code has it. Let \<open>start_ramp\<close> start a ramp of \<open>n \<ge> 1\<close> frames
  (an OSC client exists, channels are configured, the duration, FPS and hold fields are
  numbers, \<open>n = int(duration * fps)\<close>), and let \<open>send_ramp_frame\<close> have been called
  \<open>n\<close> times, so that the envelope is exhausted. Then, of the calls of
  \<open>send_ramp_frame\<close> that follow (\<open>later\<close>),
  \<^item> the first \<open>hold_frames = int(hold * fps)\<close> each send every channel's final ramp
    value, and the others send nothing: the trace grows by exactly
    \<open>min (length later) hold_frames\<close> copies of the final frame. The final value is
    the channel's target amplitude when \<open>n \<ge> 2\<close>, and \<open>0\<close> when \<open>n = 1\<close>;
  \<^item> each call after the hold schedules one put of \<open>START_HEARTBEAT\<close> on the Tk main
    loop, and when the Tk main loop has run the pending callbacks the command queue holds
    that many more \<open>START_HEARTBEAT\<close> commands.
  Whenever an iteration of the worker handles a \<open>START_HEARTBEAT\<close> command and the Tk
  main loop runs the pending callbacks during its sleep, the mode is \<open>Heartbeat\<close>
  afterwards. In a ramp mode the worker's mode dispatch is \<open>send_ramp_frame\<close>; in the
  mode \<open>Heartbeat\<close> it is \<open>send_heartbeat\<close>, which sends no ramp value.
\<close>

theorem hold_then_heartbeat:
  assumes "osc_client s0 = Some cl" and "channels s0 \<noteq> []"
    and "duration_var s0 = Some d" and "fps_var s0 = Some f" and "hold_var s0 = Some h"
    and "0 < py_int (d * real_of_int f)"
    and "length ramp_clock = nat (py_int (d * real_of_int f))"
    and "current_mode y2 = Turning_Right \<or> current_mode y2 = Turning_Left \<or> current_mode y2 = Baseline"
    and "current_mode y3 = Heartbeat"
    and "running y1" and "command_queue y1 = START_HEARTBEAT # rest"
    and "length (after_queue (worker_iteration now y1)) \<le> tk"
  shows "osc_calls (fold send_ramp_frame (ramp_clock @ later) (start_ramp dir s0)) =
           osc_calls (fold send_ramp_frame ramp_clock (start_ramp dir s0))
             @ concat (replicate (min (length later) (nat (py_int (h * real_of_int f))))
                 (map (\<lambda>ch. (address ch,
                         OscFloat (if py_int (d * real_of_int f) = 1 then 0
                                   else if dir = ''right'' then amp_right ch
                                   else if dir = ''left'' then amp_left ch else 0)))
                    (channels s0)))
       \<and> after_queue (fold send_ramp_frame (ramp_clock @ later) (start_ramp dir s0)) =
           after_queue (fold send_ramp_frame ramp_clock (start_ramp dir s0))
             @ replicate (length later - nat (py_int (h * real_of_int f))) PutStartHeartbeat
       \<and> command_queue
            (tk_run (length (after_queue (fold send_ramp_frame (ramp_clock @ later) (start_ramp dir s0))))
               (fold send_ramp_frame (ramp_clock @ later) (start_ramp dir s0))) =
           command_queue
             (tk_run (length (after_queue (fold send_ramp_frame ramp_clock (start_ramp dir s0))))
                (fold send_ramp_frame ramp_clock (start_ramp dir s0)))
             @ replicate (length later - nat (py_int (h * real_of_int f))) START_HEARTBEAT
       \<and> current_mode (worker_loop [(now, tk)] y1) = Heartbeat
       \<and> handle_current_mode now y2 = send_ramp_frame now y2
       \<and> handle_current_mode now y3 = send_heartbeat now y3"
proof -
  let ?n = "py_int (d * real_of_int f)"
  let ?amp = "\<lambda>ch. if dir = ''right'' then amp_right ch else if dir = ''left'' then amp_left ch else 0"
  obtain envelope where env: "build_envelope ?n = Inr envelope" "length envelope = nat ?n"
      "last envelope = (if ?n = 1 then 0 else 1)"
    using build_envelope_rows[OF assms(6)] by blast
  have ne: "envelope \<noteq> []" using env(2) assms(6) by auto
  let ?rd = "map (\<lambda>ch. map (\<lambda>e. ?amp ch * e) envelope) (channels s0)"
  let ?s1 = "start_ramp dir s0"
  have s1: "?s1 = s0\<lparr>ramp_data := Some ?rd, ramp_frame := 0,
                     hold_frames := py_int (h * real_of_int f), hold_frame := 0\<rparr>"
    using assms(1-5) env(1) by (rule start_ramp_state)
  have rd: "?rd \<noteq> []" "length (channels ?s1) \<le> length ?rd"
      "\<forall>row \<in> set ?rd. length row = nat ?n" "\<forall>row \<in> set ?rd. row \<noteq> []"
    using assms(2) env(2) ne by (auto simp: s1)
  have i1: "osc_client ?s1 = Some cl" "ramp_data ?s1 = Some ?rd" "ramp_frame ?s1 = 0"
      "hold_frames ?s1 = py_int (h * real_of_int f)" "hold_frame ?s1 = 0" "channels ?s1 = channels s0"
    using assms(1) by (simp_all add: s1)
  let ?sr = "fold send_ramp_frame ramp_clock ?s1"
  have cr: "core ?sr = (core ?s1)\<lparr>osc_calls := osc_calls ?sr, ramp_frame := ramp_frame ?s1 + length ramp_clock\<rparr>"
    using i1(1,2) rd(1,2,3) by (rule ramp_phase) (simp add: i1(3) assms(7))
  note fr = core_fields[OF cr]
  have ir: "osc_client ?sr = Some cl" "ramp_data ?sr = Some ?rd" "ramp_frame ?sr = nat ?n"
      "hold_frames ?sr = py_int (h * real_of_int f)" "hold_frame ?sr = 0" "channels ?sr = channels s0"
    using fr i1 assms(7) by simp_all
  have "length (?rd ! 0) = nat ?n" using assms(2) env(2) by (cases "channels s0") simp_all
  then have len0: "length (?rd ! 0) \<le> ramp_frame ?sr" using ir(3) by simp
  have ch: "length (channels ?sr) \<le> length ?rd" using ir(6) by simp
  let ?x = "fold send_ramp_frame (ramp_clock @ later) ?s1"
  have x: "?x = fold send_ramp_frame later ?sr" by simp
  have hp: "core ?x =
           (core ?sr)\<lparr>osc_calls := osc_calls ?sr @
                        concat (replicate (min (length later) (nat (hold_frames ?sr - hold_frame ?sr)))
                          (map2 (\<lambda>ch row. (address ch, OscFloat (last row))) (channels ?sr) ?rd)),
                    hold_frame := hold_frame ?sr
                        + int (min (length later) (nat (hold_frames ?sr - hold_frame ?sr)))\<rparr>
       \<and> after_queue ?x =
           after_queue ?sr
             @ replicate (length later - nat (hold_frames ?sr - hold_frame ?sr)) PutStartHeartbeat"
    unfolding x using ir(1,2) rd(1) ch rd(4) len0 by (rule hold_phase)
  have final: "map2 (\<lambda>ch row. (address ch, OscFloat (last row))) (channels ?sr) ?rd =
      map (\<lambda>ch. (address ch, OscFloat (if ?n = 1 then 0 else ?amp ch))) (channels s0)"
    unfolding ir(6) using ne env(3) by (simp add: zip_map2 zip_same_conv_map last_map comp_def)
  have calls: "osc_calls ?x = osc_calls ?sr
             @ concat (replicate (min (length later) (nat (py_int (h * real_of_int f))))
                 (map (\<lambda>ch. (address ch, OscFloat (if ?n = 1 then 0 else ?amp ch))) (channels s0)))"
    using core_fields(9)[OF conjunct1[OF hp]] unfolding final ir(4,5) by simp
  have aq: "after_queue ?x = after_queue ?sr
             @ replicate (length later - nat (py_int (h * real_of_int f))) PutStartHeartbeat"
    using conjunct2[OF hp] unfolding ir(4,5) by simp
  have q: "command_queue ?x = command_queue ?sr"
    unfolding x by (rule fold_send_ramp_frame_queue)
  have tk: "command_queue (tk_run (length (after_queue ?x)) ?x) =
           command_queue (tk_run (length (after_queue ?sr)) ?sr)
             @ replicate (length later - nat (py_int (h * real_of_int f))) START_HEARTBEAT"
  proof -
    have "command_queue (tk_run (length (after_queue ?x)) ?x) =
        command_queue ?x
          @ replicate (length (filter (\<lambda>c. c = PutStartHeartbeat) (after_queue ?x))) START_HEARTBEAT"
      by (rule tk_run_all_queue)
    also have "\<dots> = (command_queue ?sr
          @ replicate (length (filter (\<lambda>c. c = PutStartHeartbeat) (after_queue ?sr))) START_HEARTBEAT)
          @ replicate (length later - nat (py_int (h * real_of_int f))) START_HEARTBEAT"
      unfolding q aq by (simp add: replicate_add)
    also have "command_queue ?sr
          @ replicate (length (filter (\<lambda>c. c = PutStartHeartbeat) (after_queue ?sr))) START_HEARTBEAT
        = command_queue (tk_run (length (after_queue ?sr)) ?sr)"
      by (rule tk_run_all_queue[symmetric])
    finally show ?thesis .
  qed
  have ramp: "handle_current_mode now y2 = send_ramp_frame now y2"
    using assms(8) by (auto simp: handle_current_mode_def)
  have hb: "handle_current_mode now y3 = send_heartbeat now y3"
    using assms(9) by (simp add: handle_current_mode_def)
  show ?thesis
    using calls aq tk worker_handles_start_heartbeat[OF assms(10,11,12)] ramp hb by blast
qed

theorem hold_then_heartbeat_witness:
  "osc_calls (fold send_ramp_frame ([0, 0, 0] @ [0, 0, 0]) (start_ramp ''right'' ramp_gui)) =
       osc_calls (fold send_ramp_frame [0, 0, 0] (start_ramp ''right'' ramp_gui))
         @ [(''/bone/pelvis/yaw'', OscFloat 30), (''/bone/spine_01/yaw'', OscFloat 10),
            (''/bone/pelvis/yaw'', OscFloat 30), (''/bone/spine_01/yaw'', OscFloat 10)]
   \<and> after_queue (fold send_ramp_frame ([0, 0, 0] @ [0, 0, 0]) (start_ramp ''right'' ramp_gui)) =
       after_queue (fold send_ramp_frame [0, 0, 0] (start_ramp ''right'' ramp_gui))
         @ [PutStartHeartbeat]
   \<and> command_queue
        (tk_run (length (after_queue (fold send_ramp_frame ([0, 0, 0] @ [0, 0, 0]) (start_ramp ''right'' ramp_gui))))
           (fold send_ramp_frame ([0, 0, 0] @ [0, 0, 0]) (start_ramp ''right'' ramp_gui))) =
       command_queue
         (tk_run (length (after_queue (fold send_ramp_frame [0, 0, 0] (start_ramp ''right'' ramp_gui))))
            (fold send_ramp_frame [0, 0, 0] (start_ramp ''right'' ramp_gui)))
         @ [START_HEARTBEAT]
   \<and> current_mode (worker_loop [(0, 9)] (turning_gui\<lparr>command_queue := [START_HEARTBEAT]\<rparr>))
        = Heartbeat
   \<and> handle_current_mode 0 turning_gui = send_ramp_frame 0 turning_gui
   \<and> handle_current_mode 0 heartbeat_gui = send_heartbeat 0 heartbeat_gui"
proof -
  have n: "py_int (1 / 20 * real_of_int 60) = 3" "py_int (1 / 30 * real_of_int 60) = 2"
    by (simp_all add: py_int_def)
  have r: "min (length [0, 0, 0 :: real]) (nat 2) = Suc (Suc 0)"
      "length [0, 0, 0 :: real] - nat 2 = Suc 0" "length [0, 0, 0 :: real] = nat 3"
    by simp_all
  have pre: "osc_client ramp_gui = Some (\<lambda>addr v. True)" "channels ramp_gui \<noteq> []"
      "duration_var ramp_gui = Some (1 / 20)" "fps_var ramp_gui = Some 60"
      "hold_var ramp_gui = Some (1 / 30)"
      "current_mode turning_gui = Turning_Right \<or> current_mode turning_gui = Turning_Left
         \<or> current_mode turning_gui = Baseline"
      "current_mode heartbeat_gui = Heartbeat"
      "channels ramp_gui = [\<lparr>address = ''/bone/pelvis/yaw'', amp_right = 30, amp_left = -30\<rparr>,
                 \<lparr>address = ''/bone/spine_01/yaw'', amp_right = 10, amp_left = -10\<rparr>]"
    by (simp_all add: ramp_gui_def turning_gui_def heartbeat_gui_def demo_gui_def)
  have pos: "0 < py_int (1 / 20 * real_of_int 60)" unfolding n by simp
  have len: "length [0, 0, 0 :: real] = nat (py_int (1 / 20 * real_of_int 60))" unfolding n by simp
  have y1: "running (turning_gui\<lparr>command_queue := [START_HEARTBEAT]\<rparr>)"
      "command_queue (turning_gui\<lparr>command_queue := [START_HEARTBEAT]\<rparr>) = START_HEARTBEAT # []"
      "length (after_queue (worker_iteration 0 (turning_gui\<lparr>command_queue := [START_HEARTBEAT]\<rparr>)))
         \<le> 9"
    by (simp_all add: turning_gui_def demo_gui_def worker_iteration_def process_commands_def
          handle_command_def start_osc_client_def log_message_def check_connection_timeout_def
          handle_current_mode_def send_ramp_frame_def frame_sleep_def root_after_def)
  note inst = hold_then_heartbeat [OF pre(1-5) pos len pre(6,7) y1, of "[0, 0, 0]" "''right''"]
  have c1: "osc_calls (fold send_ramp_frame ([0, 0, 0] @ [0, 0, 0]) (start_ramp ''right'' ramp_gui)) =
       osc_calls (fold send_ramp_frame [0, 0, 0] (start_ramp ''right'' ramp_gui))
         @ [(''/bone/pelvis/yaw'', OscFloat 30), (''/bone/spine_01/yaw'', OscFloat 10),
            (''/bone/pelvis/yaw'', OscFloat 30), (''/bone/spine_01/yaw'', OscFloat 10)]"
    using conjunct1[OF inst] unfolding n r pre(8) by (simp add: numeral_2_eq_2)
  have c2: "after_queue (fold send_ramp_frame ([0, 0, 0] @ [0, 0, 0]) (start_ramp ''right'' ramp_gui)) =
       after_queue (fold send_ramp_frame [0, 0, 0] (start_ramp ''right'' ramp_gui))
         @ [PutStartHeartbeat]"
    using conjunct1[OF conjunct2[OF inst]] unfolding n r by simp
  have c3: "command_queue
        (tk_run (length (after_queue (fold send_ramp_frame ([0, 0, 0] @ [0, 0, 0]) (start_ramp ''right'' ramp_gui))))
           (fold send_ramp_frame ([0, 0, 0] @ [0, 0, 0]) (start_ramp ''right'' ramp_gui))) =
       command_queue
         (tk_run (length (after_queue (fold send_ramp_frame [0, 0, 0] (start_ramp ''right'' ramp_gui))))
            (fold send_ramp_frame [0, 0, 0] (start_ramp ''right'' ramp_gui)))
         @ [START_HEARTBEAT]"
    using conjunct1[OF conjunct2[OF conjunct2[OF inst]]] unfolding n r by simp
  show ?thesis
    using c1 c2 c3 conjunct2[OF conjunct2[OF conjunct2[OF inst]]] by blast
qed

text \<open>
  Claim C4 as stated takes the final ramp value to be the target amplitude. For a ramp
  of one frame it is not: the envelope is \<open>[0.0]\<close>, so a right turn with amplitudes
  \<open>30\<close> and \<open>10\<close> sends \<open>0\<close> as its only ramp frame and \<open>0\<close> again in both hold
  frames.
\<close>

theorem one_frame_ramp_holds_zero:
  "osc_calls (fold send_ramp_frame [0, 0, 0] (start_ramp ''right'' one_frame_gui)) =
       [(''/bone/pelvis/yaw'', OscFloat 0), (''/bone/spine_01/yaw'', OscFloat 0),
        (''/bone/pelvis/yaw'', OscFloat 0), (''/bone/spine_01/yaw'', OscFloat 0),
        (''/bone/pelvis/yaw'', OscFloat 0), (''/bone/spine_01/yaw'', OscFloat 0)]
   \<and> map amp_right (channels one_frame_gui) = [30, 10]
   \<and> ramp_data (start_ramp ''right'' one_frame_gui) = Some [[0], [0]]
   \<and> hold_frames (start_ramp ''right'' one_frame_gui) = 2
   \<and> hold_frame (fold send_ramp_frame [0, 0, 0] (start_ramp ''right'' one_frame_gui)) = 2"
  by (simp add: one_frame_gui_def demo_gui_def start_ramp_def build_envelope_def linspace_def
        py_int_def send_ramp_frame_def py_index_def py_last_def count_sends_def root_after_def
        Let_def)

text \<open>
  A whole right turn of three frames with a hold of two, the Tk main loop running all
  pending callbacks in every sleep. The iteration that handles \<open>TURN_RIGHT\<close> still
  dispatches on \<open>Heartbeat\<close>; three ramp frames and two hold frames follow; the next
  iteration schedules the put; the one that handles \<open>START_HEARTBEAT\<close> still dispatches
  on the ramp mode and schedules a second put; the last one handles that second command
  and sends the heartbeat.
\<close>

lemma turn_right_run:
  "current_mode (worker_loop [(0, 9), (0, 9), (0, 9), (0, 9), (0, 9), (0, 9), (0, 9), (0, 9), (0, 9)] ramp_gui)
     = Heartbeat
   \<and> command_queue (worker_loop [(0, 9), (0, 9), (0, 9), (0, 9), (0, 9), (0, 9), (0, 9), (0, 9), (0, 9)] ramp_gui)
     = []
   \<and> osc_calls (worker_loop [(0, 9), (0, 9), (0, 9), (0, 9), (0, 9), (0, 9), (0, 9), (0, 9), (0, 9)] ramp_gui) =
       [(''/bone/pelvis/yaw'', OscFloat 0), (''/bone/spine_01/yaw'', OscFloat 0),
        (''/bone/pelvis/yaw'', OscFloat 0), (''/bone/spine_01/yaw'', OscFloat 0),
        (''/bone/pelvis/yaw'', OscFloat 15), (''/bone/spine_01/yaw'', OscFloat 5),
        (''/bone/pelvis/yaw'', OscFloat 30), (''/bone/spine_01/yaw'', OscFloat 10),
        (''/bone/pelvis/yaw'', OscFloat 30), (''/bone/spine_01/yaw'', OscFloat 10),
        (''/bone/pelvis/yaw'', OscFloat 30), (''/bone/spine_01/yaw'', OscFloat 10),
        (''/bone/pelvis/yaw'', OscFloat 0), (''/bone/spine_01/yaw'', OscFloat 0)]"
  by (simp add: ramp_gui_def demo_gui_def worker_iteration_def process_commands_def
        handle_command_def start_osc_client_def start_ramp_def build_envelope_def
        linspace_def py_int_def update_status_def log_message_def check_connection_timeout_def
        handle_current_mode_def send_heartbeat_def send_ramp_frame_def py_index_def py_last_def
        count_sends_def frame_sleep_def Let_def upt_conv_Cons root_after_def tk_run_def
        power2_eq_square power3_eq_cube)

section \<open>Properties of the turn-command parser\<close>

text \<open>
  Claim C7. For every input that resolves to a turn intent, \<open>angle_deg\<close> lies in
  \<open>[0, 180]\<close>, \<open>speed_deg_s\<close> in \<open>[1, 360]\<close> and \<open>duration_s\<close>, when present, in
  \<open>[0, 10]\<close>; an explicit angle of \<open>200\<close> yields \<open>180\<close> and one of \<open>-10\<close> yields
  \<open>0\<close>.
\<close>

theorem turn_parameters_clamped:
  assumes "resolve_turn text m = TurnIntent t"
  shows "0 \<le> angle_deg t \<and> angle_deg t \<le> 180
       \<and> 1 \<le> speed_deg_s t \<and> speed_deg_s t \<le> 360
       \<and> (\<forall>d. duration_s t = Some d \<longrightarrow> 0 \<le> d \<and> d \<le> 10)
       \<and> (explicit_angle m = Some 200 \<longrightarrow> angle_deg t = 180)
       \<and> (explicit_angle m = Some (-10) \<longrightarrow> angle_deg t = 0)"
  using assms
  by (auto simp: resolve_turn_def clamp_to_def seed_def split: option.splits)

theorem turn_parameters_clamped_witness:
  "resolve_turn ''turn left 200 degrees for 20 seconds'' turn_left_200 =
     TurnIntent \<lparr>scope = ''body'', direction = ''left'', angle_deg = 180, speed_deg_s = 90,
                 duration_s = Some 10\<rparr>
   \<and> (0::real) \<le> 180 \<and> (180::real) \<le> 180 \<and> (1::real) \<le> 90 \<and> (90::real) \<le> 360
   \<and> (0::real) \<le> 10 \<and> (10::real) \<le> 10"
proof -
  have r: "resolve_turn ''turn left 200 degrees for 20 seconds'' turn_left_200 =
     TurnIntent \<lparr>scope = ''body'', direction = ''left'', angle_deg = 180, speed_deg_s = 90,
                 duration_s = Some 10\<rparr>"
    by (simp add: resolve_turn_def turn_left_200_def direction_synonyms_def clamp_to_def seed_def)
  show ?thesis using turn_parameters_clamped [OF r] r by simp
qed

end
